theory Spec2Isabelle
  imports Main "HOL-Library.Sublist" "HOL-Library.Multiset"
begin

section \<open>The scaffolding script \<open>create-structure.py\<close>\<close>

text \<open>
  The script creates a fixed list of directories under a base directory that it derives
  from its own location, prints one summary line and returns the list of created paths.
  Its only effects are on the filesystem and on standard output, so the model passes both
  explicitly. Everything the script calls from Python's library (\<open>pathlib\<close>, \<open>os.mkdir\<close>)
  is modelled below as the library documents and implements it on a POSIX system.

  The model fixes what the script leaves to its environment: \<open>__file__\<close> is an
  absolute, normalised path (as the interpreter sets it for the main module, with no
  \<open>.\<close> or \<open>..\<close> component), a path names an entry by its components (no symbolic links), a
  directory that was created accepts entries unless the system refuses them, nothing
  else changes the filesystem during a run, and \<open>print\<close> does not fail.
\<close>

subsection \<open>Paths\<close>

text \<open>
  A path is the list of its components below the root, so the root is \<open>[]\<close> and
  \<open>/apps/admin-api\<close> is \<open>[''apps'', ''admin-api'']\<close>. \<open>Path.parent\<close> drops the last
  component and the parent of the root is the root.
\<close>

type_synonym path = "string list"

definition parent :: "path \<Rightarrow> path" where
  "parent p = butlast p"

text \<open>Python's \<open>str.split(sep)\<close> with a one-character separator.\<close>

fun split_on :: "char \<Rightarrow> string \<Rightarrow> string list" where
  "split_on sep [] = [[]]"
| "split_on sep (c # cs) =
     (if c = sep then [] # split_on sep cs
      else (case split_on sep cs of
              [] \<Rightarrow> [[c]]
            | w # ws \<Rightarrow> (c # w) # ws))"

text \<open>
  \<open>pathlib\<close> parses a string into components by splitting at \<open>/\<close> and dropping the empty
  components and the components \<open>.\<close>; it keeps \<open>..\<close> as a component.
\<close>

definition parts :: "string \<Rightarrow> path" where
  "parts s = filter (\<lambda>x. x \<noteq> [] \<and> x \<noteq> ''.'') (split_on (CHR ''/'') s)"

definition is_absolute :: "string \<Rightarrow> bool" where
  "is_absolute s = (case s of [] \<Rightarrow> False | c # cs \<Rightarrow> c = CHR ''/'')"

text \<open>The operator \<open>/\<close> of \<open>pathlib\<close>: an absolute right operand replaces the left one.\<close>

definition joinpath :: "path \<Rightarrow> string \<Rightarrow> path" where
  "joinpath base s = (if is_absolute s then parts s else base @ parts s)"

subsection \<open>The filesystem and the errors of the library\<close>

datatype node = Dir | File string

type_synonym filesystem = "path \<Rightarrow> node option"

datatype error =
    FileExistsError
  | FileNotFoundError
  | NotADirectoryError
  | PermissionError
  | ValueError

text \<open>
  A filesystem is a tree: the root is a directory and every entry lies in a directory.
\<close>

definition wf_fs :: "filesystem \<Rightarrow> bool" where
  "wf_fs fs \<longleftrightarrow> fs [] = Some Dir \<and> (\<forall>p. fs p \<noteq> None \<longrightarrow> fs (parent p) = Some Dir)"

text \<open>
  The system call behind \<open>os.mkdir\<close>. It fails when the path exists (\<open>EEXIST\<close>), when
  its parent is missing (\<open>ENOENT\<close>) or is not a directory (\<open>ENOTDIR\<close>), and when the
  system refuses the creation (\<open>EACCES\<close>: the predicate \<open>deny\<close> stands for permissions,
  read-only mounts and quotas, which the script cannot see). A failed call changes
  nothing.
\<close>

definition os_mkdir :: "(path \<Rightarrow> bool) \<Rightarrow> path \<Rightarrow> filesystem \<Rightarrow> error + filesystem" where
  "os_mkdir deny p fs =
     (if fs p \<noteq> None then Inl FileExistsError
      else (case fs (parent p) of
              None \<Rightarrow> Inl FileNotFoundError
            | Some (File c) \<Rightarrow> Inl NotADirectoryError
            | Some Dir \<Rightarrow> if deny p then Inl PermissionError else Inr (fs(p \<mapsto> Dir))))"

definition is_dir :: "filesystem \<Rightarrow> path \<Rightarrow> bool" where
  "is_dir fs p = (fs p = Some Dir)"

text \<open>
  \<open>Path.mkdir(parents, exist_ok)\<close> as \<open>pathlib\<close> implements it:
  \<^verbatim>\<open>
    try:
        os.mkdir(self, mode)
    except FileNotFoundError:
        if not parents or self.parent == self:
            raise
        self.parent.mkdir(parents=True, exist_ok=True)
        self.mkdir(mode, parents=False, exist_ok=exist_ok)
    except OSError:
        if not exist_ok or not self.is_dir():
            raise
  \<close>
  The result carries the filesystem also when an error is raised, since the parents
  created before the error stay.
\<close>

function mkdir ::
  "(path \<Rightarrow> bool) \<Rightarrow> bool \<Rightarrow> bool \<Rightarrow> path \<Rightarrow> filesystem \<Rightarrow> (error + unit) \<times> filesystem" where
  "mkdir deny parents exist_ok p fs =
     (case os_mkdir deny p fs of
        Inr fs' \<Rightarrow> (Inr (), fs')
      | Inl e \<Rightarrow>
          if e = FileNotFoundError then
            (if \<not> parents \<or> parent p = p then (Inl e, fs)
             else (case mkdir deny True True (parent p) fs of
                     (Inl e', fs') \<Rightarrow> (Inl e', fs')
                   | (Inr u, fs') \<Rightarrow> mkdir deny False exist_ok p fs'))
          else if \<not> exist_ok \<or> \<not> is_dir fs p then (Inl e, fs)
          else (Inr (), fs))"
  by pat_completeness auto

termination
proof (relation "measures [\<lambda>(deny, parents, exist_ok, p, fs). length p,
                          \<lambda>(deny, parents, exist_ok, p, fs). if parents then 1 else 0]")
  show "wf (measures [\<lambda>(deny, parents, exist_ok, p, fs). length p,
                      \<lambda>(deny, parents, exist_ok, p, fs). if parents then 1 else (0::nat)])"
    by simp
next
  fix deny :: "path \<Rightarrow> bool" and parents exist_ok :: bool and p :: path and fs :: filesystem
    and e :: error
  assume "\<not> (\<not> parents \<or> parent p = p)"
  then have "p \<noteq> []" by (auto simp: parent_def)
  then show "((deny, True, True, parent p, fs), (deny, parents, exist_ok, p, fs))
      \<in> measures [\<lambda>(deny, parents, exist_ok, p, fs). length p,
                   \<lambda>(deny, parents, exist_ok, p, fs). if parents then 1 else 0]"
    by (simp add: parent_def)
next
  fix deny :: "path \<Rightarrow> bool" and parents exist_ok :: bool and p :: path and fs fs' :: filesystem
    and e :: error
  assume "\<not> (\<not> parents \<or> parent p = p)"
  then show "((deny, False, exist_ok, p, fs'), (deny, parents, exist_ok, p, fs))
      \<in> measures [\<lambda>(deny, parents, exist_ok, p, fs). length p,
                   \<lambda>(deny, parents, exist_ok, p, fs). if parents then 1 else 0]"
    by simp
qed

text \<open>
  \<open>PurePath.relative_to(other)\<close> raises \<open>ValueError\<close> unless \<open>other\<close> is an ancestor of
  the path (or the path itself); \<open>str\<close> of a relative path joins its components with
  \<open>/\<close>, and is \<open>.\<close> for the empty path.
\<close>

definition relative_to :: "path \<Rightarrow> path \<Rightarrow> error + path" where
  "relative_to p other =
     (if prefix other p then Inr (drop (length other) p) else Inl ValueError)"

fun join_slash :: "string list \<Rightarrow> string" where
  "join_slash [] = []"
| "join_slash [c] = c"
| "join_slash (c # d # cs) = c @ ''/'' @ join_slash (d # cs)"

definition str_path :: "path \<Rightarrow> string" where
  "str_path cs = (if cs = [] then ''.'' else join_slash cs)"

subsection \<open>The script\<close>

text \<open>
  \<open>BASE_DIR = Path(__file__).parent.parent / "src"\<close>, where \<open>script\<close> is the absolute
  path of the script file.
\<close>

definition BASE_DIR :: "path \<Rightarrow> path" where
  "BASE_DIR script = joinpath (parent (parent script)) ''src''"

definition DIRS :: "string list" where
  "DIRS =
     [
      ''presentation/controllers'',
      ''presentation/dtos'',
      ''presentation/mappers'',
      ''application/auth/use-cases'',
      ''application/auth/commands'',
      ''application/auth/queries'',
      ''application/auth/dtos'',
      ''application/users'',
      ''application/shared/interfaces'',
      ''application/shared/events'',
      ''domain/auth/entities'',
      ''domain/auth/value-objects'',
      ''domain/auth/services'',
      ''domain/auth/events'',
      ''domain/auth/repositories'',
      ''domain/users'',
      ''domain/roles'',
      ''domain/permissions'',
      ''domain/tenants'',
      ''domain/shared/events'',
      ''domain/shared/value-objects'',
      ''infrastructure/persistence/typeorm/repositories'',
      ''infrastructure/persistence/typeorm/entities'',
      ''infrastructure/persistence/mappers'',
      ''infrastructure/events/handlers'',
      ''infrastructure/external''
     ]"

text \<open>Python's \<open>str\<close> of a natural number: its decimal digits.\<close>

definition digit_char :: "nat \<Rightarrow> char" where
  "digit_char d = ''0123456789'' ! d"

fun str_nat :: "nat \<Rightarrow> string" where
  "str_nat n =
     (if n < 10 then [digit_char n]
      else str_nat (n div 10) @ [digit_char (n mod 10)])"

text \<open>
  The line the f-string of \<open>print\<close> produces, in UTF-8: four Chinese characters, a
  space, the count, a space, three Chinese characters.
\<close>

definition summary_line :: "nat \<Rightarrow> string" where
  "summary_line n =
     [CHR 0xE6, CHR 0x88, CHR 0x90, CHR 0xE5, CHR 0x8A, CHR 0x9F, CHR 0xE5, CHR 0x88, CHR 0x9B, CHR 0xE5, CHR 0xBB, CHR 0xBA]
     @ '' '' @ str_nat n @ '' '' @
     [CHR 0xE4, CHR 0xB8, CHR 0xAA, CHR 0xE7, CHR 0x9B, CHR 0xAE, CHR 0xE5, CHR 0xBD, CHR 0x95]"

text \<open>
  The loop of \<open>create_dirs\<close>. An error raised by \<open>mkdir\<close> or by \<open>relative_to\<close> is not
  caught: it ends the loop with the filesystem as it is at that moment.
\<close>

fun create_loop ::
  "(path \<Rightarrow> bool) \<Rightarrow> path \<Rightarrow> string list \<Rightarrow> string list \<Rightarrow> filesystem
     \<Rightarrow> (error + string list) \<times> filesystem" where
  "create_loop deny base [] created fs = (Inr created, fs)"
| "create_loop deny base (dir_path # rest) created fs =
     (let full_path = joinpath base dir_path in
      case mkdir deny True True full_path fs of
        (Inl e, fs') \<Rightarrow> (Inl e, fs')
      | (Inr u, fs') \<Rightarrow>
          (case relative_to full_path (parent base) of
             Inl e \<Rightarrow> (Inl e, fs')
           | Inr rel \<Rightarrow> create_loop deny base rest (created @ [str_path rel]) fs'))"

text \<open>
  A run of \<open>create_dirs\<close>: what it returns or raises, the filesystem it leaves and the
  lines it printed.
\<close>

record outcome =
  result :: "error + string list"
  fs_after :: filesystem
  stdout :: "string list"

definition create_dirs :: "path \<Rightarrow> (path \<Rightarrow> bool) \<Rightarrow> filesystem \<Rightarrow> outcome" where
  "create_dirs script deny fs =
     (case create_loop deny (BASE_DIR script) DIRS [] fs of
        (Inl e, fs') \<Rightarrow> \<lparr>result = Inl e, fs_after = fs', stdout = []\<rparr>
      | (Inr created, fs') \<Rightarrow>
          \<lparr>result = Inr created, fs_after = fs',
           stdout = [summary_line (length created)]\<rparr>)"

subsection \<open>Predicates used in the statements and proofs\<close>

text \<open>
  What one call of \<open>mkdir\<close> on \<open>p\<close> may do to the filesystem: it keeps every entry,
  what it adds are directories on the way to \<open>p\<close>, and when it returns, \<open>p\<close> is a
  directory.
\<close>

definition mkdir_post :: "path \<Rightarrow> filesystem \<Rightarrow> (error + unit) \<Rightarrow> filesystem \<Rightarrow> bool" where
  "mkdir_post p fs r fs' \<longleftrightarrow>
     (\<forall>q. fs q \<noteq> None \<longrightarrow> fs' q = fs q) \<and>
     (\<forall>q. fs q = None \<longrightarrow> fs' q \<noteq> None \<longrightarrow> fs' q = Some Dir \<and> prefix q p) \<and>
     (r = Inr () \<longrightarrow> fs' p = Some Dir)"

text \<open>The filesystem \<open>fs\<close> with a directory at every free path that satisfies \<open>P\<close>.\<close>

definition with_dirs :: "filesystem \<Rightarrow> (path \<Rightarrow> bool) \<Rightarrow> filesystem" where
  "with_dirs fs P = (\<lambda>q. if fs q = None \<and> P q then Some Dir else fs q)"

text \<open>
  Nothing stands in the way of creating \<open>p\<close> with its parents: no file lies on the path
  and the system refuses none of the missing directories.
\<close>

definition creatable :: "(path \<Rightarrow> bool) \<Rightarrow> filesystem \<Rightarrow> path \<Rightarrow> bool" where
  "creatable deny fs p \<longleftrightarrow>
     (\<forall>q. prefix q p \<longrightarrow> (\<forall>c. fs q \<noteq> Some (File c)) \<and> (fs q = None \<longrightarrow> \<not> deny q))"

text \<open>The name \<open>create_dirs\<close> records for a manifest entry.\<close>

definition recorded :: "path \<Rightarrow> string \<Rightarrow> string" where
  "recorded base d = str_path (drop (length (parent base)) (joinpath base d))"

text \<open>
  The path \<open>q\<close> is the directory of a manifest entry under \<open>base\<close>, or lies below
  one.
\<close>

definition under_entry :: "path \<Rightarrow> path \<Rightarrow> bool" where
  "under_entry base q = list_ex (\<lambda>e. prefix (joinpath base e) q) DIRS"

text \<open>
  The manifest as the specification lists it, in the specification's order; the list
  \<open>DIRS\<close> above is the one of the script.
\<close>

definition spec_manifest :: "string list" where
  "spec_manifest =
     [
      ''presentation/controllers'',
      ''presentation/dtos'',
      ''presentation/mappers'',
      ''application/auth/use-cases'',
      ''application/auth/commands'',
      ''application/auth/queries'',
      ''application/auth/dtos'',
      ''application/users'',
      ''application/shared/interfaces'',
      ''application/shared/events'',
      ''domain/auth/entities'',
      ''domain/auth/value-objects'',
      ''domain/auth/services'',
      ''domain/auth/events'',
      ''domain/auth/repositories'',
      ''domain/users'',
      ''domain/roles'',
      ''domain/permissions'',
      ''domain/tenants'',
      ''domain/shared/events'',
      ''domain/shared/value-objects'',
      ''infrastructure/persistence/typeorm/repositories'',
      ''infrastructure/persistence/typeorm/entities'',
      ''infrastructure/persistence/mappers'',
      ''infrastructure/events/handlers'',
      ''infrastructure/external''
     ]"

subsection \<open>Example inputs\<close>

text \<open>
  A checkout in which the script lies in \<open>/app/scripts\<close> and \<open>/app/src\<close> does not
  exist yet, the same checkout with a file at \<open>/app/src/domain\<close> and with a file at
  \<open>/app/src/presentation\<close>, and a system that refuses nothing.
\<close>

definition example_script :: path where
  "example_script = [''app'', ''scripts'', ''create-structure.py'']"

definition fresh_checkout :: filesystem where
  "fresh_checkout =
     [[] \<mapsto> Dir, [''app''] \<mapsto> Dir, [''app'', ''scripts''] \<mapsto> Dir,
      [''app'', ''scripts'', ''create-structure.py''] \<mapsto> File ''#!/usr/bin/env python3'']"

definition domain_is_file :: filesystem where
  "domain_is_file =
     fresh_checkout([''app'', ''src''] \<mapsto> Dir, [''app'', ''src'', ''domain''] \<mapsto> File [])"

definition presentation_is_file :: filesystem where
  "presentation_is_file =
     fresh_checkout([''app'', ''src''] \<mapsto> Dir, [''app'', ''src'', ''presentation''] \<mapsto> File [])"

definition deny_none :: "path \<Rightarrow> bool" where
  "deny_none p = False"

section \<open>Properties of the library model\<close>

declare mkdir.simps [simp del]

lemma parent_fixed: "parent p = p \<longleftrightarrow> p = []"
  by (cases p rule: rev_cases) (simp_all add: parent_def)

lemma parent_snoc [simp]: "parent (ps @ [x]) = ps"
  by (simp add: parent_def)

lemma prefix_parent: "prefix q (parent p) \<Longrightarrow> prefix q p"
  by (cases p rule: rev_cases) (simp_all add: parent_def)

lemma os_mkdir_Inr:
  "os_mkdir deny p fs = Inr fs' \<longleftrightarrow>
     fs p = None \<and> fs (parent p) = Some Dir \<and> \<not> deny p \<and> fs' = fs(p \<mapsto> Dir)"
  by (auto simp: os_mkdir_def split: option.splits node.splits)

lemma mkdir_post_same: "fs p = Some Dir \<Longrightarrow> mkdir_post p fs r fs"
  by (simp add: mkdir_post_def)

lemma mkdir_post_fail: "mkdir_post p fs (Inl e) fs"
  by (simp add: mkdir_post_def)

lemma mkdir_post_new: "fs p = None \<Longrightarrow> mkdir_post p fs r (fs(p \<mapsto> Dir))"
  by (auto simp: mkdir_post_def)

lemma mkdir_post_trans_fail:
  "mkdir_post (parent p) fs r1 fs1 \<Longrightarrow> mkdir_post p fs (Inl e) fs1"
  by (auto simp: mkdir_post_def dest: prefix_parent)

lemma mkdir_post_trans:
  "mkdir_post (parent p) fs r1 fs1 \<Longrightarrow> mkdir_post p fs1 r fs' \<Longrightarrow> mkdir_post p fs r fs'"
  unfolding mkdir_post_def
  by (metis prefix_parent)

lemma mkdir_mkdir_post:
  "mkdir deny parents exist_ok p fs = (r, fs') \<Longrightarrow> mkdir_post p fs r fs'"
proof (induction deny parents exist_ok p fs arbitrary: r fs' rule: mkdir.induct)
  case (1 deny parents exist_ok p fs)
  show ?case
  proof (cases "os_mkdir deny p fs")
    case (Inr fs1)
    with "1.prems" have res: "r = Inr ()" "fs' = fs1"
      by (subst (asm) mkdir.simps, simp)+
    from Inr have a: "fs p = None" and b: "fs1 = fs(p \<mapsto> Dir)"
      by (simp_all add: os_mkdir_Inr)
    from a have "mkdir_post p fs r (fs(p \<mapsto> Dir))" by (rule mkdir_post_new)
    then show ?thesis unfolding res b .
  next
    case (Inl e)
    show ?thesis
    proof (cases "e = FileNotFoundError \<and> \<not> (\<not> parents \<or> parent p = p)")
      case False
      with Inl "1.prems" show ?thesis
        by (subst (asm) mkdir.simps)
           (auto simp: mkdir_post_fail mkdir_post_same is_dir_def split: if_splits)
    next
      case True
      with Inl have eq: "mkdir deny parents exist_ok p fs =
          (case mkdir deny True True (parent p) fs of
             (Inl e', fs') \<Rightarrow> (Inl e', fs')
           | (Inr u, fs') \<Rightarrow> mkdir deny False exist_ok p fs')"
        by (subst mkdir.simps) simp
      obtain r1 fs1 where m1: "mkdir deny True True (parent p) fs = (r1, fs1)"
        by (cases "mkdir deny True True (parent p) fs")
      from "1.IH"(1) [OF Inl _ _ m1] True have s1: "mkdir_post (parent p) fs r1 fs1" by simp
      show ?thesis
      proof (cases r1)
        case (Inl e1)
        with eq m1 "1.prems" have "r = Inl e1" "fs' = fs1" by simp_all
        with s1 show ?thesis by (simp add: mkdir_post_trans_fail)
      next
        case (Inr u)
        with eq m1 "1.prems" have m2: "mkdir deny False exist_ok p fs1 = (r, fs')"
          by simp
        from "1.IH"(2) [OF \<open>os_mkdir deny p fs = Inl e\<close> _ _ _ _ m2] True m1 Inr
        have "mkdir_post p fs1 r fs'" by simp
        with s1 show ?thesis by (rule mkdir_post_trans)
      qed
    qed
  qed
qed

lemma mkdir_root:
  "mkdir deny True True [] fs =
     (case fs [] of
        None \<Rightarrow> (Inl FileNotFoundError, fs)
      | Some Dir \<Rightarrow> (Inr (), fs)
      | Some (File c) \<Rightarrow> (Inl FileExistsError, fs))"
  by (subst mkdir.simps)
     (simp add: os_mkdir_def is_dir_def parent_def split: option.splits node.splits)

lemma mkdir_leaf:
  "mkdir deny False True p fs =
     (case fs p of
        Some Dir \<Rightarrow> (Inr (), fs)
      | Some (File c) \<Rightarrow> (Inl FileExistsError, fs)
      | None \<Rightarrow>
          (case fs (parent p) of
             None \<Rightarrow> (Inl FileNotFoundError, fs)
           | Some (File c) \<Rightarrow> (Inl NotADirectoryError, fs)
           | Some Dir \<Rightarrow>
               if deny p then (Inl PermissionError, fs) else (Inr (), fs(p \<mapsto> Dir))))"
  by (subst mkdir.simps)
     (simp add: os_mkdir_def is_dir_def split: option.splits node.splits)

lemma mkdir_snoc:
  "mkdir deny True True (ps @ [x]) fs =
     (case fs (ps @ [x]) of
        Some Dir \<Rightarrow> (Inr (), fs)
      | Some (File c) \<Rightarrow> (Inl FileExistsError, fs)
      | None \<Rightarrow>
          (case fs ps of
             Some (File c) \<Rightarrow> (Inl NotADirectoryError, fs)
           | _ \<Rightarrow>
               (case mkdir deny True True ps fs of
                  (Inl e, fs1) \<Rightarrow> (Inl e, fs1)
                | (Inr u, fs1) \<Rightarrow>
                    if deny (ps @ [x]) then (Inl PermissionError, fs1)
                    else (Inr (), fs1(ps @ [x] \<mapsto> Dir)))))"
proof (cases "fs (ps @ [x])")
  case (Some n)
  then show ?thesis
    by (subst mkdir.simps)
       (simp add: os_mkdir_def is_dir_def split: option.splits node.splits)
next
  case None
  show ?thesis
  proof (cases "fs ps")
    case (Some n)
    show ?thesis
    proof (cases n)
      case Dir
      have "mkdir deny True True ps fs = (Inr (), fs)"
        using Some Dir
        by (subst mkdir.simps) (simp add: os_mkdir_def is_dir_def)
      with None Some Dir show ?thesis
        by (subst mkdir.simps) (simp add: os_mkdir_def is_dir_def)
    next
      case (File c)
      with None Some show ?thesis
        by (subst mkdir.simps) (simp add: os_mkdir_def is_dir_def)
    qed
  next
    case N2: None
    obtain r1 fs1 where m1: "mkdir deny True True ps fs = (r1, fs1)"
      by (cases "mkdir deny True True ps fs")
    from mkdir_mkdir_post [OF m1] have s1: "mkdir_post ps fs r1 fs1" .
    have eq: "mkdir deny True True (ps @ [x]) fs =
        (case r1 of Inl e \<Rightarrow> (Inl e, fs1) | Inr u \<Rightarrow> mkdir deny False True (ps @ [x]) fs1)"
      using None N2 m1
      by (subst mkdir.simps) (simp add: os_mkdir_def parent_fixed split: sum.splits)
    show ?thesis
    proof (cases r1)
      case (Inl e)
      with eq m1 None N2 show ?thesis by simp
    next
      case (Inr u)
      with s1 have d: "fs1 ps = Some Dir" by (simp add: mkdir_post_def)
      have "fs1 (ps @ [x]) = None"
      proof (rule ccontr)
        assume "fs1 (ps @ [x]) \<noteq> None"
        with s1 None have "prefix (ps @ [x]) ps" unfolding mkdir_post_def by blast
        then show False by (auto simp: prefix_def)
      qed
      with eq m1 None N2 Inr d show ?thesis by (simp add: mkdir_leaf)
    qed
  qed
qed

lemma wf_fs_ancestors:
  "wf_fs fs \<Longrightarrow> fs p \<noteq> None \<Longrightarrow> prefix q p \<Longrightarrow> q \<noteq> p \<Longrightarrow> fs q = Some Dir"
proof (induction p rule: rev_induct)
  case Nil
  then show ?case by simp
next
  case (snoc x ps)
  from snoc.prems(1,2) have d: "fs ps = Some Dir"
    unfolding wf_fs_def by (metis parent_snoc)
  from snoc.prems(3,4) have "prefix q ps" by (simp add: prefix_snoc)
  with snoc.IH [OF snoc.prems(1)] d show ?case by (cases "q = ps") simp_all
qed

lemma wf_fs_update:
  assumes "wf_fs fs" and "fs p = None" and "fs (parent p) = Some Dir"
  shows "wf_fs (fs(p \<mapsto> Dir))"
proof -
  from assms have ne: "p \<noteq> []" by (auto simp: wf_fs_def)
  then have pp: "parent p \<noteq> p" by (simp add: parent_fixed)
  show ?thesis
    unfolding wf_fs_def
  proof (intro conjI allI impI)
    from assms(1) ne show "(fs(p \<mapsto> Dir)) [] = Some Dir" by (simp add: wf_fs_def)
  next
    fix q assume q: "(fs(p \<mapsto> Dir)) q \<noteq> None"
    show "(fs(p \<mapsto> Dir)) (parent q) = Some Dir"
    proof (cases "q = p")
      case True
      with assms(3) pp show ?thesis by simp
    next
      case False
      with q have "fs q \<noteq> None" by simp
      with assms(1) have "fs (parent q) = Some Dir" by (simp add: wf_fs_def)
      with assms(2) show ?thesis by auto
    qed
  qed
qed

lemma mkdir_Inr_parts:
  assumes "mkdir deny True True ps fs = (Inr (), fs1)" and "fs (ps @ [x]) = None"
  shows "fs1 ps = Some Dir" and "fs1 (ps @ [x]) = None"
proof -
  from mkdir_mkdir_post [OF assms(1)] have s: "mkdir_post ps fs (Inr ()) fs1" .
  then show "fs1 ps = Some Dir" by (simp add: mkdir_post_def)
  show "fs1 (ps @ [x]) = None"
  proof (rule ccontr)
    assume "fs1 (ps @ [x]) \<noteq> None"
    with s assms(2) have "prefix (ps @ [x]) ps" unfolding mkdir_post_def by blast
    then show False by (auto simp: prefix_def)
  qed
qed

lemma mkdir_wf:
  "mkdir deny True True p fs = (r, fs') \<Longrightarrow> wf_fs fs \<Longrightarrow> wf_fs fs'"
proof (induction p arbitrary: r fs' rule: rev_induct)
  case Nil
  then show ?case by (auto simp: mkdir_root split: option.splits node.splits)
next
  case (snoc x ps)
  obtain r1 fs1 where m1: "mkdir deny True True ps fs = (r1, fs1)"
    by (cases "mkdir deny True True ps fs")
  from snoc.IH [OF m1 snoc.prems(2)] have w1: "wf_fs fs1" .
  show ?case
  proof (cases "fs (ps @ [x]) = None \<and> (\<forall>c. fs ps \<noteq> Some (File c)) \<and> r1 = Inr () \<and> \<not> deny (ps @ [x])")
    case False
    with snoc.prems m1 w1 show ?thesis
      by (auto simp: mkdir_snoc split: option.splits node.splits sum.splits if_splits)
  next
    case True
    with m1 have m1': "mkdir deny True True ps fs = (Inr (), fs1)" by simp
    from True snoc.prems(1) m1 have f: "fs' = fs1(ps @ [x] \<mapsto> Dir)"
      by (auto simp: mkdir_snoc split: option.splits node.splits)
    from True have n: "fs (ps @ [x]) = None" by simp
    have "wf_fs (fs1(ps @ [x] \<mapsto> Dir))"
    proof (rule wf_fs_update [OF w1])
      show "fs1 (ps @ [x]) = None" by (rule mkdir_Inr_parts(2) [OF m1' n])
      show "fs1 (parent (ps @ [x])) = Some Dir"
        using mkdir_Inr_parts(1) [OF m1' n] by simp
    qed
    then show ?thesis unfolding f .
  qed
qed

lemma with_dirs_snoc:
  "fs (ps @ [x]) = None \<Longrightarrow>
   (with_dirs fs (\<lambda>q. prefix q ps))(ps @ [x] \<mapsto> Dir) = with_dirs fs (\<lambda>q. prefix q (ps @ [x]))"
  by (rule ext) (auto simp: with_dirs_def prefix_snoc)

lemma with_dirs_present:
  "wf_fs fs \<Longrightarrow> fs p \<noteq> None \<Longrightarrow> with_dirs fs (\<lambda>q. prefix q p) = fs"
proof (rule ext)
  fix q assume w: "wf_fs fs" and p: "fs p \<noteq> None"
  show "with_dirs fs (\<lambda>q. prefix q p) q = fs q"
  proof (cases "prefix q p")
    case True
    with w p wf_fs_ancestors [of fs p q] have "fs q \<noteq> None" by (cases "q = p") auto
    then show ?thesis by (simp add: with_dirs_def)
  next
    case False
    then show ?thesis by (simp add: with_dirs_def)
  qed
qed

lemma mkdir_closed_form:
  "wf_fs fs \<Longrightarrow> mkdir deny True True p fs = (Inr (), fs') \<Longrightarrow>
   fs' = with_dirs fs (\<lambda>q. prefix q p)"
proof (induction p arbitrary: fs' rule: rev_induct)
  case Nil
  then have "fs' = fs" "fs [] \<noteq> None"
    by (auto simp: mkdir_root split: option.splits node.splits)
  with with_dirs_present [OF Nil.prems(1), of "[]"] show ?case by simp
next
  case (snoc x ps)
  show ?case
  proof (cases "fs (ps @ [x])")
    case (Some n)
    with snoc.prems(2) have "fs' = fs" 
      by (auto simp: mkdir_snoc split: node.splits)
    with Some with_dirs_present [OF snoc.prems(1), of "ps @ [x]"] show ?thesis by simp
  next
    case None
    with snoc.prems(2) obtain fs1 where
      m1: "mkdir deny True True ps fs = (Inr (), fs1)" and
      f: "fs' = fs1(ps @ [x] \<mapsto> Dir)"
      by (auto simp: mkdir_snoc split: option.splits node.splits sum.splits if_splits prod.splits)
    from snoc.IH [OF snoc.prems(1) m1] have "fs1 = with_dirs fs (\<lambda>q. prefix q ps)" .
    with f None show ?thesis by (simp add: with_dirs_snoc)
  qed
qed

lemma creatable_Nil: "creatable deny fs [] \<longleftrightarrow> (\<forall>c. fs [] \<noteq> Some (File c)) \<and> (fs [] = None \<longrightarrow> \<not> deny [])"
  by (simp add: creatable_def)

lemma creatable_snoc:
  "creatable deny fs (ps @ [x]) \<longleftrightarrow>
     creatable deny fs ps \<and> (\<forall>c. fs (ps @ [x]) \<noteq> Some (File c)) \<and>
     (fs (ps @ [x]) = None \<longrightarrow> \<not> deny (ps @ [x]))"
  unfolding creatable_def prefix_snoc by blast

lemma creatable_present:
  "wf_fs fs \<Longrightarrow> fs p = Some Dir \<Longrightarrow> creatable deny fs p"
  unfolding creatable_def
proof (intro allI impI)
  fix q assume w: "wf_fs fs" and p: "fs p = Some Dir" and q: "prefix q p"
  with wf_fs_ancestors [of fs p q] have "fs q = Some Dir" by (cases "q = p") auto
  then show "(\<forall>c. fs q \<noteq> Some (File c)) \<and> (fs q = None \<longrightarrow> \<not> deny q)" by simp
qed

lemma mkdir_succeeds_iff:
  "wf_fs fs \<Longrightarrow> (\<exists>fs'. mkdir deny True True p fs = (Inr (), fs')) \<longleftrightarrow> creatable deny fs p"
proof (induction p rule: rev_induct)
  case Nil
  then show ?case by (simp add: mkdir_root creatable_Nil wf_fs_def)
next
  case (snoc x ps)
  show ?case
  proof (cases "fs (ps @ [x])")
    case (Some n)
    with snoc.prems show ?thesis
      by (cases n) (simp_all add: mkdir_snoc creatable_present, simp add: creatable_def, blast)
  next
    case None
    show ?thesis
    proof (cases "\<exists>c. fs ps = Some (File c)")
      case True
      then have "\<not> creatable deny fs ps" by (auto simp: creatable_def)
      with None True show ?thesis by (auto simp: mkdir_snoc creatable_snoc)
    next
      case False
      with None have "(\<exists>fs'. mkdir deny True True (ps @ [x]) fs = (Inr (), fs')) \<longleftrightarrow>
          (\<exists>fs1. mkdir deny True True ps fs = (Inr (), fs1)) \<and> \<not> deny (ps @ [x])"
        by (auto simp: mkdir_snoc split: option.splits node.splits sum.splits prod.splits)
      with snoc.IH [OF snoc.prems] None show ?thesis by (simp add: creatable_snoc)
    qed
  qed
qed

lemma mkdir_present:
  "fs p = Some Dir \<Longrightarrow> mkdir deny True True p fs = (Inr (), fs)"
  by (subst mkdir.simps) (simp add: os_mkdir_def is_dir_def)

lemma not_prefix_snoc: "\<not> prefix (ps @ [x]) ps"
  by (auto simp: prefix_def)

lemma mkdir_again:
  "mkdir deny True True p fs = (r, fs') \<Longrightarrow> mkdir deny True True p fs' = (r, fs')"
proof (induction p arbitrary: r fs' rule: rev_induct)
  case Nil
  then show ?case by (auto simp: mkdir_root split: option.splits node.splits)
next
  case (snoc x ps)
  show ?case
  proof (cases "fs (ps @ [x])")
    case (Some n)
    with snoc.prems show ?thesis
      by (cases n) (auto simp: mkdir_snoc)
  next
    case None
    show ?thesis
    proof (cases "\<exists>c. fs ps = Some (File c)")
      case True
      with None snoc.prems show ?thesis by (auto simp: mkdir_snoc)
    next
      case False
      obtain r1 fs1 where m1: "mkdir deny True True ps fs = (r1, fs1)"
        by (cases "mkdir deny True True ps fs")
      from snoc.IH [OF m1] have a1: "mkdir deny True True ps fs1 = (r1, fs1)" .
      from None False m1 have eq: "mkdir deny True True (ps @ [x]) fs =
          (case r1 of Inl e \<Rightarrow> (Inl e, fs1)
           | Inr u \<Rightarrow> if deny (ps @ [x]) then (Inl PermissionError, fs1)
                      else (Inr (), fs1(ps @ [x] \<mapsto> Dir)))"
        by (auto simp: mkdir_snoc split: option.splits node.splits sum.splits)
      show ?thesis
      proof (cases r1)
        case (Inl e)
        with eq snoc.prems have res: "r = Inl e" "fs' = fs1" by simp_all
        from mkdir_mkdir_post [OF m1] None have n1: "fs1 (ps @ [x]) = None"
          unfolding mkdir_post_def by (metis not_prefix_snoc)
        have nf: "\<And>c. fs1 ps \<noteq> Some (File c)"
          using mkdir_mkdir_post [OF m1] False unfolding mkdir_post_def
          by (metis node.distinct(1) option.inject)
        from n1 nf a1 Inl show ?thesis unfolding res
          by (auto simp: mkdir_snoc split: option.splits node.splits)
      next
        case (Inr u)
        with m1 have m1': "mkdir deny True True ps fs = (Inr (), fs1)" by simp
        note parts = mkdir_Inr_parts [OF m1' None]
        show ?thesis
        proof (cases "deny (ps @ [x])")
          case True
          with eq Inr snoc.prems have res: "r = Inl PermissionError" "fs' = fs1" by simp_all
          from parts a1 Inr True show ?thesis unfolding res
            by (simp add: mkdir_snoc)
        next
          case False
          with eq Inr snoc.prems have res: "r = Inr ()" "fs' = fs1(ps @ [x] \<mapsto> Dir)"
            by simp_all
          show ?thesis unfolding res by (rule mkdir_present) simp
        qed
      qed
    qed
  qed
qed

section \<open>Properties of the loop\<close>

lemma relative_to_Inr:
  "relative_to p other = Inr rel \<longleftrightarrow> prefix other p \<and> rel = drop (length other) p"
  by (auto simp: relative_to_def)

lemma create_loop_Cons:
  "mkdir deny True True (joinpath base d) fs = (r1, fs1) \<Longrightarrow>
   create_loop deny base (d # ds) created fs =
     (case r1 of
        Inl e \<Rightarrow> (Inl e, fs1)
      | Inr u \<Rightarrow>
          if prefix (parent base) (joinpath base d)
          then create_loop deny base ds (created @ [recorded base d]) fs1
          else (Inl ValueError, fs1))"
  by (simp add: relative_to_def recorded_def split: sum.splits)

declare create_loop.simps(2) [simp del]

lemma create_loop_append:
  "create_loop deny base (ds1 @ ds2) created fs =
     (case create_loop deny base ds1 created fs of
        (Inl e, fs1) \<Rightarrow> (Inl e, fs1)
      | (Inr c, fs1) \<Rightarrow> create_loop deny base ds2 c fs1)"
  by (induction ds1 arbitrary: created fs)
     (auto simp: create_loop.simps(2) Let_def split: prod.splits sum.splits)

lemma create_loop_keeps:
  "create_loop deny base ds created fs = (r, fs') \<Longrightarrow> fs q \<noteq> None \<Longrightarrow> fs' q = fs q"
proof (induction ds arbitrary: created fs)
  case Nil
  then show ?case by simp
next
  case (Cons d ds)
  obtain r1 fs1 where m: "mkdir deny True True (joinpath base d) fs = (r1, fs1)"
    by (cases "mkdir deny True True (joinpath base d) fs")
  from mkdir_mkdir_post [OF m] Cons.prems(2) have k: "fs1 q = fs q"
    by (simp add: mkdir_post_def)
  show ?case
  proof (cases r1)
    case (Inl e)
    with Cons.prems(1) k show ?thesis by (simp add: create_loop_Cons [OF m])
  next
    case (Inr u)
    show ?thesis
    proof (cases "prefix (parent base) (joinpath base d)")
      case True
      with m Inr Cons.prems(1)
      have "create_loop deny base ds (created @ [recorded base d]) fs1 = (r, fs')"
        by (simp add: create_loop_Cons [OF m])
      from Cons.IH [OF this] k Cons.prems(2) show ?thesis by simp
    next
      case False
      with m Inr Cons.prems(1) k show ?thesis by (simp add: create_loop_Cons [OF m])
    qed
  qed
qed

lemma create_loop_adds:
  "create_loop deny base ds created fs = (r, fs') \<Longrightarrow> fs q = None \<Longrightarrow> fs' q \<noteq> None \<Longrightarrow>
   fs' q = Some Dir \<and> (\<exists>d\<in>set ds. prefix q (joinpath base d))"
proof (induction ds arbitrary: created fs)
  case Nil
  then show ?case by simp
next
  case (Cons d ds)
  obtain r1 fs1 where m: "mkdir deny True True (joinpath base d) fs = (r1, fs1)"
    by (cases "mkdir deny True True (joinpath base d) fs")
  from mkdir_mkdir_post [OF m] Cons.prems(2)
  have a: "fs1 q \<noteq> None \<Longrightarrow> fs1 q = Some Dir \<and> prefix q (joinpath base d)"
    by (simp add: mkdir_post_def)
  show ?case
  proof (cases "r1 = Inr () \<and> prefix (parent base) (joinpath base d)")
    case True
    with m Cons.prems(1)
    have l: "create_loop deny base ds (created @ [recorded base d]) fs1 = (r, fs')"
      by (simp add: create_loop_Cons [OF m])
    show ?thesis
    proof (cases "fs1 q")
      case None
      from Cons.IH [OF l None Cons.prems(3)] show ?thesis by simp
    next
      case (Some n)
      with create_loop_keeps [OF l, of q] a show ?thesis by simp
    qed
  next
    case False
    with m Cons.prems(1) have "fs' = fs1"
      by (cases r1) (auto simp: create_loop_Cons [OF m] split: if_splits)
    with a Cons.prems(3) show ?thesis by simp
  qed
qed

lemma create_loop_Inr:
  "create_loop deny base ds created fs = (Inr c, fs') \<Longrightarrow>
   c = created @ map (recorded base) ds \<and>
   (\<forall>d\<in>set ds. prefix (parent base) (joinpath base d) \<and> fs' (joinpath base d) = Some Dir)"
proof (induction ds arbitrary: created fs)
  case Nil
  then show ?case by simp
next
  case (Cons d ds)
  obtain r1 fs1 where m: "mkdir deny True True (joinpath base d) fs = (r1, fs1)"
    by (cases "mkdir deny True True (joinpath base d) fs")
  with Cons.prems have r1: "r1 = Inr ()"
    by (cases r1) (auto simp: create_loop_Cons [OF m])
  with m Cons.prems have p: "prefix (parent base) (joinpath base d)"
    and l: "create_loop deny base ds (created @ [recorded base d]) fs1 = (Inr c, fs')"
    by (auto simp: create_loop_Cons [OF m] split: if_splits)
  from mkdir_mkdir_post [OF m] r1 have "fs1 (joinpath base d) = Some Dir"
    by (simp add: mkdir_post_def)
  with create_loop_keeps [OF l, of "joinpath base d"]
  have "fs' (joinpath base d) = Some Dir" by simp
  with Cons.IH [OF l] p show ?case by simp
qed

lemma create_loop_wf:
  "create_loop deny base ds created fs = (r, fs') \<Longrightarrow> wf_fs fs \<Longrightarrow> wf_fs fs'"
proof (induction ds arbitrary: created fs)
  case Nil
  then show ?case by simp
next
  case (Cons d ds)
  obtain r1 fs1 where m: "mkdir deny True True (joinpath base d) fs = (r1, fs1)"
    by (cases "mkdir deny True True (joinpath base d) fs")
  from mkdir_wf [OF m Cons.prems(2)] have w: "wf_fs fs1" .
  show ?case
  proof (cases "r1 = Inr () \<and> prefix (parent base) (joinpath base d)")
    case True
    with m Cons.prems(1)
    have "create_loop deny base ds (created @ [recorded base d]) fs1 = (r, fs')"
      by (simp add: create_loop_Cons [OF m])
    from Cons.IH [OF this w] show ?thesis .
  next
    case False
    with m Cons.prems(1) have "fs' = fs1"
      by (cases r1) (auto simp: create_loop_Cons [OF m] split: if_splits)
    with w show ?thesis by simp
  qed
qed

lemma with_dirs_nothing: "with_dirs fs (\<lambda>q. False) = fs"
  by (rule ext) (simp add: with_dirs_def)

lemma with_dirs_twice:
  "with_dirs (with_dirs fs P) Q = with_dirs fs (\<lambda>q. P q \<or> Q q)"
  by (rule ext) (auto simp: with_dirs_def)

lemma create_loop_closed_form:
  "wf_fs fs \<Longrightarrow> create_loop deny base ds created fs = (Inr c, fs') \<Longrightarrow>
   fs' = with_dirs fs (\<lambda>q. \<exists>d\<in>set ds. prefix q (joinpath base d))"
proof (induction ds arbitrary: created fs)
  case Nil
  then show ?case by (simp add: with_dirs_nothing)
next
  case (Cons d ds)
  obtain r1 fs1 where m: "mkdir deny True True (joinpath base d) fs = (r1, fs1)"
    by (cases "mkdir deny True True (joinpath base d) fs")
  with Cons.prems have r1: "r1 = Inr ()"
    by (cases r1) (auto simp: create_loop_Cons [OF m])
  with m Cons.prems
  have l: "create_loop deny base ds (created @ [recorded base d]) fs1 = (Inr c, fs')"
    by (auto simp: create_loop_Cons [OF m] split: if_splits)
  from m r1 have m': "mkdir deny True True (joinpath base d) fs = (Inr (), fs1)" by simp
  from mkdir_closed_form [OF Cons.prems(1) m']
  have f1: "fs1 = with_dirs fs (\<lambda>q. prefix q (joinpath base d))" .
  from mkdir_wf [OF m' Cons.prems(1)] have "wf_fs fs1" .
  from Cons.IH [OF this l]
  have "fs' = with_dirs fs1 (\<lambda>q. \<exists>d\<in>set ds. prefix q (joinpath base d))" .
  then show ?case unfolding f1 with_dirs_twice by simp
qed

lemma creatable_with_dirs:
  assumes "creatable deny fs p"
  shows "creatable deny (with_dirs fs (\<lambda>q. prefix q p)) t \<longleftrightarrow> creatable deny fs t"
  using assms unfolding creatable_def with_dirs_def
  by (auto split: if_splits)

lemma create_loop_succeeds_iff:
  "wf_fs fs \<Longrightarrow>
   (\<exists>c fs'. create_loop deny base ds created fs = (Inr c, fs')) \<longleftrightarrow>
   (\<forall>d\<in>set ds. creatable deny fs (joinpath base d) \<and> prefix (parent base) (joinpath base d))"
proof (induction ds arbitrary: created fs)
  case Nil
  then show ?case by simp
next
  case (Cons d ds)
  let ?p = "joinpath base d"
  show ?case
  proof (cases "creatable deny fs ?p")
    case False
    with mkdir_succeeds_iff [OF Cons.prems, of deny ?p]
    have "\<And>fs1. mkdir deny True True ?p fs \<noteq> (Inr (), fs1)" by blast
    then have "\<And>c fs'. create_loop deny base (d # ds) created fs \<noteq> (Inr c, fs')"
      by (auto simp: create_loop.simps(2) Let_def split: prod.splits sum.splits)
    with False show ?thesis by auto
  next
    case True
    with mkdir_succeeds_iff [OF Cons.prems, of deny ?p]
    obtain fs1 where m: "mkdir deny True True ?p fs = (Inr (), fs1)" by blast
    from mkdir_closed_form [OF Cons.prems m]
    have f1: "fs1 = with_dirs fs (\<lambda>q. prefix q ?p)" .
    from mkdir_wf [OF m Cons.prems] have w1: "wf_fs fs1" .
    have c1: "\<And>t. creatable deny fs1 t \<longleftrightarrow> creatable deny fs t"
      unfolding f1 by (rule creatable_with_dirs [OF True])
    show ?thesis
    proof (cases "prefix (parent base) ?p")
      case False
      with m show ?thesis by (simp add: create_loop_Cons [OF m])
    next
      case P: True
      with m have "create_loop deny base (d # ds) created fs =
          create_loop deny base ds (created @ [recorded base d]) fs1"
        by (simp add: create_loop_Cons [OF m])
      with Cons.IH [OF w1, of "created @ [recorded base d]"] True P c1
      show ?thesis by simp
    qed
  qed
qed

lemma create_loop_present:
  "\<forall>d\<in>set ds. prefix (parent base) (joinpath base d) \<and> fs (joinpath base d) = Some Dir \<Longrightarrow>
   create_loop deny base ds created fs = (Inr (created @ map (recorded base) ds), fs)"
  by (induction ds arbitrary: created)
     (simp_all add: create_loop.simps(2) mkdir_present relative_to_def recorded_def)

lemma create_loop_again:
  "create_loop deny base ds created fs = (r, fs') \<Longrightarrow>
   create_loop deny base ds created fs' = (r, fs')"
proof (induction ds arbitrary: created fs)
  case Nil
  then show ?case by simp
next
  case (Cons d ds)
  obtain r1 fs1 where m: "mkdir deny True True (joinpath base d) fs = (r1, fs1)"
    by (cases "mkdir deny True True (joinpath base d) fs")
  show ?case
  proof (cases "r1 = Inr () \<and> prefix (parent base) (joinpath base d)")
    case True
    with Cons.prems
    have l: "create_loop deny base ds (created @ [recorded base d]) fs1 = (r, fs')"
      by (simp add: create_loop_Cons [OF m])
    from mkdir_mkdir_post [OF m] True have "fs1 (joinpath base d) = Some Dir"
      by (simp add: mkdir_post_def)
    with create_loop_keeps [OF l, of "joinpath base d"]
    have "fs' (joinpath base d) = Some Dir" by simp
    then have "mkdir deny True True (joinpath base d) fs' = (Inr (), fs')"
      by (rule mkdir_present)
    from create_loop_Cons [OF this] True Cons.IH [OF l] show ?thesis by simp
  next
    case False
    with Cons.prems have res: "fs' = fs1" "r = (case r1 of Inl e \<Rightarrow> Inl e | Inr u \<Rightarrow> Inl ValueError)"
      by (cases r1; auto simp: create_loop_Cons [OF m] split: if_splits)+
    from mkdir_again [OF m] have "mkdir deny True True (joinpath base d) fs1 = (r1, fs1)" .
    from create_loop_Cons [OF this] False show ?thesis unfolding res
      by (cases r1) auto
  qed
qed

section \<open>Properties of the script\<close>

lemma BASE_DIR_src: "BASE_DIR script = parent (parent script) @ [''src'']"
  by (simp add: BASE_DIR_def joinpath_def is_absolute_def parts_def)

lemma parent_BASE_DIR: "parent (BASE_DIR script) = parent (parent script)"
  by (simp add: BASE_DIR_src)

lemma joinpath_relative: "\<not> is_absolute d \<Longrightarrow> joinpath base d = base @ parts d"
  by (simp add: joinpath_def)

lemma prefix_parent_self: "prefix (parent base) base"
  by (cases base rule: rev_cases) (simp_all add: parent_def)

lemma relative_below_parent:
  "\<not> is_absolute d \<Longrightarrow> prefix (parent base) (joinpath base d)"
proof -
  assume "\<not> is_absolute d"
  then have "prefix base (joinpath base d)" by (simp add: joinpath_relative)
  with prefix_parent_self [of base] show ?thesis by (rule prefix_order.trans)
qed

lemma DIRS_relative: "d \<in> set DIRS \<Longrightarrow> \<not> is_absolute d"
  by (auto simp: DIRS_def is_absolute_def)

lemma recorded_src:
  "\<not> is_absolute d \<Longrightarrow> recorded (BASE_DIR script) d = str_path (''src'' # parts d)"
  by (simp add: recorded_def parent_BASE_DIR joinpath_relative) (simp add: BASE_DIR_src)

lemma DIRS_names: "list_all (\<lambda>d. str_path (''src'' # parts d) = ''src/'' @ d) DIRS"
  by code_simp

lemma DIRS_recorded:
  "d \<in> set DIRS \<Longrightarrow> recorded (BASE_DIR script) d = ''src/'' @ d"
  using DIRS_names by (simp add: recorded_src DIRS_relative list_all_iff)

lemma length_DIRS: "length DIRS = 26"
  by (simp add: DIRS_def)

lemma create_dirs_result:
  "result (create_dirs script deny fs) = fst (create_loop deny (BASE_DIR script) DIRS [] fs)"
  by (simp add: create_dirs_def split: prod.splits sum.splits)

lemma create_dirs_fs_after:
  "fs_after (create_dirs script deny fs) = snd (create_loop deny (BASE_DIR script) DIRS [] fs)"
  by (simp add: create_dirs_def split: prod.splits sum.splits)

lemma create_dirs_stdout:
  "stdout (create_dirs script deny fs) =
     (case result (create_dirs script deny fs) of
        Inl e \<Rightarrow> []
      | Inr created \<Rightarrow> [summary_line (length created)])"
  by (simp add: create_dirs_def split: prod.splits sum.splits)

lemma create_dirs_Inr:
  assumes "result (create_dirs script deny fs) = Inr created"
  shows "create_loop deny (BASE_DIR script) DIRS [] fs =
    (Inr created, fs_after (create_dirs script deny fs))"
  using assms by (simp add: create_dirs_result create_dirs_fs_after prod_eq_iff)

lemma wf_fresh_checkout: "wf_fs fresh_checkout"
  by (auto simp: wf_fs_def fresh_checkout_def parent_def split: if_splits)

lemma fresh_run:
  "result (create_dirs example_script deny_none fresh_checkout) = Inr (map ((@) ''src/'') DIRS)"
  by code_simp

lemma wf_domain_is_file: "wf_fs domain_is_file"
  by (auto simp: wf_fs_def domain_is_file_def fresh_checkout_def parent_def split: if_splits)

lemma wf_presentation_is_file: "wf_fs presentation_is_file"
  by (auto simp: wf_fs_def presentation_is_file_def fresh_checkout_def parent_def split: if_splits)

lemma prefix_beyond:
  "prefix q (a @ x # r) \<Longrightarrow> \<not> prefix q a \<Longrightarrow> prefix (a @ [x]) q"
  by (auto simp: prefix_append prefix_Cons)

lemma created_on_the_way:
  assumes "fs_after (create_dirs script deny fs) q \<noteq> fs q"
  shows "fs q = None \<and> fs_after (create_dirs script deny fs) q = Some Dir \<and>
         (\<exists>e\<in>set DIRS. prefix q (joinpath (BASE_DIR script) e))"
proof -
  obtain r fs' where l: "create_loop deny (BASE_DIR script) DIRS [] fs = (r, fs')"
    by (cases "create_loop deny (BASE_DIR script) DIRS [] fs")
  then have f: "fs_after (create_dirs script deny fs) = fs'"
    by (simp add: create_dirs_fs_after)
  from assms create_loop_keeps [OF l, of q] have n: "fs q = None"
    unfolding f by blast
  with assms have "fs' q \<noteq> None" unfolding f by simp
  from create_loop_adds [OF l n this] n show ?thesis unfolding f by simp
qed

lemma created_below_base:
  assumes "wf_fs fs" and "fs (parent (parent script)) \<noteq> None"
    and "fs_after (create_dirs script deny fs) q \<noteq> fs q"
  shows "prefix (BASE_DIR script) q"
proof -
  let ?pp = "parent (parent script)"
  from created_on_the_way [OF assms(3)] obtain e where
    n: "fs q = None" and e: "e \<in> set DIRS" and p: "prefix q (joinpath (BASE_DIR script) e)"
    by blast
  from e have "joinpath (BASE_DIR script) e = ?pp @ ''src'' # parts e"
    by (simp add: joinpath_relative DIRS_relative BASE_DIR_src)
  with p have p': "prefix q (?pp @ ''src'' # parts e)" by simp
  have "\<not> prefix q ?pp"
  proof
    assume "prefix q ?pp"
    with wf_fs_ancestors [OF assms(1,2), of q] assms(2) have "fs q \<noteq> None"
      by (cases "q = ?pp") auto
    with n show False by simp
  qed
  from prefix_beyond [OF p' this] show ?thesis by (simp add: BASE_DIR_src)
qed

lemma DIRS_entries:
  "list_all (\<lambda>e. e \<noteq> [] \<and> \<not> is_absolute e \<and> parts e \<noteq> [] \<and>
      list_all (\<lambda>c. c \<noteq> [] \<and> c \<noteq> ''.'' \<and> c \<noteq> ''..'') (split_on (CHR ''/'') e)) DIRS"
  by code_simp

lemma distinct_DIRS: "distinct DIRS"
  by code_simp

lemma distinct_parts_DIRS: "distinct (map parts DIRS)"
  by code_simp

lemma map_joinpath_DIRS: "map (joinpath base) DIRS = map ((@) base) (map parts DIRS)"
  by (simp add: joinpath_relative DIRS_relative)

lemma recorded_entry:
  assumes "d \<in> set DIRS"
  shows "relative_to (joinpath (BASE_DIR script) d) (parent (BASE_DIR script))
           = Inr (''src'' # parts d) \<and>
         recorded (BASE_DIR script) d = str_path (''src'' # parts d) \<and>
         recorded (BASE_DIR script) d = ''src/'' @ d"
proof -
  from assms have r: "\<not> is_absolute d" by (rule DIRS_relative)
  then have "relative_to (joinpath (BASE_DIR script) d) (parent (BASE_DIR script))
      = Inr (''src'' # parts d)"
    by (simp add: relative_to_def parent_BASE_DIR joinpath_relative) (simp add: BASE_DIR_src)
  moreover from r have "recorded (BASE_DIR script) d = str_path (''src'' # parts d)"
    by (rule recorded_src)
  moreover from assms have "recorded (BASE_DIR script) d = ''src/'' @ d"
    by (rule DIRS_recorded)
  ultimately show ?thesis by simp
qed

lemma recorded_DIRS: "map (recorded (BASE_DIR script)) DIRS = map ((@) ''src/'') DIRS"
  by (rule map_cong) (simp_all add: DIRS_recorded)

lemma create_dirs_returns_iff:
  assumes "wf_fs fs"
  shows "result (create_dirs script deny fs) = Inr (map ((@) ''src/'') DIRS) \<longleftrightarrow>
         (\<forall>e\<in>set DIRS. creatable deny fs (joinpath (BASE_DIR script) e))"
proof -
  let ?B = "BASE_DIR script"
  have below: "\<forall>d\<in>set DIRS. prefix (parent ?B) (joinpath ?B d)"
    by (simp add: relative_below_parent DIRS_relative)
  have "(\<exists>c fs'. create_loop deny ?B DIRS [] fs = (Inr c, fs')) \<longleftrightarrow>
      result (create_dirs script deny fs) = Inr (map ((@) ''src/'') DIRS)"
  proof
    assume "\<exists>c fs'. create_loop deny ?B DIRS [] fs = (Inr c, fs')"
    then obtain c fs' where l: "create_loop deny ?B DIRS [] fs = (Inr c, fs')" by blast
    from create_loop_Inr [OF l] have "c = map (recorded ?B) DIRS" by simp
    with l show "result (create_dirs script deny fs) = Inr (map ((@) ''src/'') DIRS)"
      by (simp add: create_dirs_result recorded_DIRS)
  next
    assume "result (create_dirs script deny fs) = Inr (map ((@) ''src/'') DIRS)"
    from create_dirs_Inr [OF this]
    show "\<exists>c fs'. create_loop deny ?B DIRS [] fs = (Inr c, fs')" by blast
  qed
  with create_loop_succeeds_iff [OF assms, of deny ?B DIRS "[]"] below
  show ?thesis by simp
qed

lemma creatable_fresh_checkout:
  assumes "e \<in> set DIRS"
  shows "creatable deny_none fresh_checkout (joinpath (BASE_DIR example_script) e)"
  unfolding creatable_def
proof (intro allI impI conjI)
  fix q c
  assume "prefix q (joinpath (BASE_DIR example_script) e)"
  with assms have "prefix q ([''app'', ''src''] @ parts e)"
    by (simp add: joinpath_relative DIRS_relative BASE_DIR_src example_script_def parent_def)
  then have "q \<noteq> [''app'', ''scripts'', ''create-structure.py'']"
    by (auto simp: prefix_Cons)
  then show "fresh_checkout q \<noteq> Some (File c)"
    by (simp add: fresh_checkout_def)
next
  fix q assume "fresh_checkout q = None"
  show "\<not> deny_none q" by (simp add: deny_none_def)
qed

section \<open>The claims\<close>

text \<open>
  C1 (every directory exists). When the run returns, the path of every manifest entry under the
  base directory is a directory afterwards; when the filesystem was a tree before the
  run, so is every prefix of that path, that is every intermediate segment.
\<close>

theorem completeness:
  assumes "result (create_dirs script deny fs) = Inr created"
  shows "(\<forall>e\<in>set DIRS. is_dir (fs_after (create_dirs script deny fs))
            (joinpath (BASE_DIR script) e)) \<and>
         (wf_fs fs \<longrightarrow>
            (\<forall>e\<in>set DIRS. \<forall>q. prefix q (joinpath (BASE_DIR script) e) \<longrightarrow>
               is_dir (fs_after (create_dirs script deny fs)) q))"
proof (intro conjI ballI allI impI)
  let ?fs' = "fs_after (create_dirs script deny fs)"
  note run = create_dirs_Inr [OF assms]
  have t: "?fs' (joinpath (BASE_DIR script) e) = Some Dir" if "e \<in> set DIRS" for e
    using create_loop_Inr [OF run] that by simp
  {
    fix e assume "e \<in> set DIRS"
    then show "is_dir ?fs' (joinpath (BASE_DIR script) e)" by (simp add: t is_dir_def)
  }
  fix e q
  assume w0: "wf_fs fs" and e: "e \<in> set DIRS"
    and q: "prefix q (joinpath (BASE_DIR script) e)"
  from create_loop_wf [OF run w0] have w: "wf_fs ?fs'" .
  show "is_dir ?fs' q"
  proof (cases "q = joinpath (BASE_DIR script) e")
    case True
    with t [OF e] show ?thesis by (simp add: is_dir_def)
  next
    case False
    with wf_fs_ancestors [OF w _ q] t [OF e] show ?thesis by (simp add: is_dir_def)
  qed
qed

theorem completeness_witness:
  "wf_fs fresh_checkout \<and>
   result (create_dirs example_script deny_none fresh_checkout) = Inr (map ((@) ''src/'') DIRS) \<and>
   is_dir (fs_after (create_dirs example_script deny_none fresh_checkout))
     [''app'', ''src'', ''infrastructure'', ''persistence'', ''typeorm'', ''repositories''] \<and>
   is_dir (fs_after (create_dirs example_script deny_none fresh_checkout))
     [''app'', ''src'', ''infrastructure'', ''persistence'']"
proof -
  have e: "''infrastructure/persistence/typeorm/repositories'' \<in> set DIRS"
    by (simp add: DIRS_def)
  have j: "joinpath (BASE_DIR example_script) ''infrastructure/persistence/typeorm/repositories''
      = [''app'', ''src'', ''infrastructure'', ''persistence'', ''typeorm'', ''repositories'']"
    by code_simp
  from completeness [OF fresh_run] wf_fresh_checkout e
  have "\<forall>q. prefix q [''app'', ''src'', ''infrastructure'', ''persistence'', ''typeorm'', ''repositories'']
      \<longrightarrow> is_dir (fs_after (create_dirs example_script deny_none fresh_checkout)) q"
    unfolding j [symmetric] by blast
  then show ?thesis using wf_fresh_checkout fresh_run by simp
qed

text \<open>
  C2 (count). A run that returns prints exactly one line, the summary line with the
  number of manifest entries, 26, whatever the filesystem was before.
\<close>

theorem summary_count:
  assumes "result (create_dirs script deny fs) = Inr created"
  shows "stdout (create_dirs script deny fs) = [summary_line 26] \<and>
         length created = 26 \<and> length DIRS = 26 \<and>
         summary_line 26 =
           [CHR 0xE6, CHR 0x88, CHR 0x90, CHR 0xE5, CHR 0x8A, CHR 0x9F,
            CHR 0xE5, CHR 0x88, CHR 0x9B, CHR 0xE5, CHR 0xBB, CHR 0xBA] @ '' 26 '' @
           [CHR 0xE4, CHR 0xB8, CHR 0xAA, CHR 0xE7, CHR 0x9B, CHR 0xAE,
            CHR 0xE5, CHR 0xBD, CHR 0x95]"
proof -
  from create_loop_Inr [OF create_dirs_Inr [OF assms]]
  have "created = map (recorded (BASE_DIR script)) DIRS" by simp
  then have l: "length created = 26" by (simp add: length_DIRS)
  have "str_nat 26 = ''26''" by (simp add: digit_char_def)
  with l assms show ?thesis
    by (simp add: create_dirs_stdout length_DIRS summary_line_def)
qed

theorem summary_count_witness:
  "stdout (create_dirs example_script deny_none fresh_checkout) = [summary_line 26] \<and>
   stdout (create_dirs example_script deny_none
     (fs_after (create_dirs example_script deny_none fresh_checkout))) = [summary_line 26]"
proof -
  have "result (create_dirs example_script deny_none
     (fs_after (create_dirs example_script deny_none fresh_checkout))) = Inr (map ((@) ''src/'') DIRS)"
    by code_simp
  from summary_count [OF fresh_run] summary_count [OF this] show ?thesis by simp
qed

text \<open>
  C3 (result). A run that returns yields one name per manifest entry, in the manifest's
  order: the entry's full path relative to the parent of the base directory, which is
  \<open>src/\<close> followed by the entry. On a tree-shaped filesystem the run returns this list
  exactly when nothing stands in the way of creating the directory of any entry.
\<close>

theorem recorded_paths:
  "(result (create_dirs script deny fs) = Inr created \<longrightarrow>
      created = map ((@) ''src/'') DIRS \<and>
      length created = length DIRS \<and>
      (\<forall>i<length DIRS.
         relative_to (joinpath (BASE_DIR script) (DIRS ! i)) (parent (BASE_DIR script))
           = Inr (''src'' # parts (DIRS ! i)) \<and>
         created ! i = str_path (''src'' # parts (DIRS ! i)) \<and>
         created ! i = ''src/'' @ DIRS ! i)) \<and>
   (wf_fs fs \<longrightarrow>
      (result (create_dirs script deny fs) = Inr (map ((@) ''src/'') DIRS)) =
      (\<forall>e\<in>set DIRS. creatable deny fs (joinpath (BASE_DIR script) e)))"
proof (intro conjI impI)
  assume ok: "result (create_dirs script deny fs) = Inr created"
  from create_loop_Inr [OF create_dirs_Inr [OF ok]]
  have c: "created = map (recorded (BASE_DIR script)) DIRS" by simp
  then show "created = map ((@) ''src/'') DIRS" by (simp add: recorded_DIRS)
  from c show "length created = length DIRS" by simp
  show "\<forall>i<length DIRS.
      relative_to (joinpath (BASE_DIR script) (DIRS ! i)) (parent (BASE_DIR script))
        = Inr (''src'' # parts (DIRS ! i)) \<and>
      created ! i = str_path (''src'' # parts (DIRS ! i)) \<and>
      created ! i = ''src/'' @ DIRS ! i"
  proof (intro allI impI)
    fix i assume i: "i < length DIRS"
    then have "DIRS ! i \<in> set DIRS" by (rule nth_mem)
    from recorded_entry [OF this, of script] i c
    show "relative_to (joinpath (BASE_DIR script) (DIRS ! i)) (parent (BASE_DIR script))
        = Inr (''src'' # parts (DIRS ! i)) \<and>
      created ! i = str_path (''src'' # parts (DIRS ! i)) \<and>
      created ! i = ''src/'' @ DIRS ! i"
      by (metis nth_map)
  qed
next
  assume "wf_fs fs"
  then show "(result (create_dirs script deny fs) = Inr (map ((@) ''src/'') DIRS)) =
      (\<forall>e\<in>set DIRS. creatable deny fs (joinpath (BASE_DIR script) e))"
    by (rule create_dirs_returns_iff)
qed

theorem recorded_paths_witness:
  "result (create_dirs example_script deny_none fresh_checkout) =
     Inr [''src/presentation/controllers'', ''src/presentation/dtos'',
          ''src/presentation/mappers'', ''src/application/auth/use-cases'',
          ''src/application/auth/commands'', ''src/application/auth/queries'',
          ''src/application/auth/dtos'', ''src/application/users'',
          ''src/application/shared/interfaces'', ''src/application/shared/events'',
          ''src/domain/auth/entities'', ''src/domain/auth/value-objects'',
          ''src/domain/auth/services'', ''src/domain/auth/events'',
          ''src/domain/auth/repositories'', ''src/domain/users'', ''src/domain/roles'',
          ''src/domain/permissions'', ''src/domain/tenants'', ''src/domain/shared/events'',
          ''src/domain/shared/value-objects'',
          ''src/infrastructure/persistence/typeorm/repositories'',
          ''src/infrastructure/persistence/typeorm/entities'',
          ''src/infrastructure/persistence/mappers'',
          ''src/infrastructure/events/handlers'', ''src/infrastructure/external''] \<and>
   relative_to (joinpath (BASE_DIR example_script) (DIRS ! 10)) (parent (BASE_DIR example_script))
     = Inr [''src'', ''domain'', ''auth'', ''entities'']"
proof -
  note t = recorded_paths [of example_script deny_none fresh_checkout
      "map ((@) ''src/'') DIRS"]
  from t wf_fresh_checkout creatable_fresh_checkout
  have r: "result (create_dirs example_script deny_none fresh_checkout)
      = Inr (map ((@) ''src/'') DIRS)"
    by blast
  have i: "10 < length DIRS" by (simp add: length_DIRS)
  from t r i have "relative_to (joinpath (BASE_DIR example_script) (DIRS ! 10))
      (parent (BASE_DIR example_script)) = Inr (''src'' # parts (DIRS ! 10))"
    by blast
  moreover have "parts (DIRS ! 10) = [''domain'', ''auth'', ''entities'']" by code_simp
  moreover from r have "result (create_dirs example_script deny_none fresh_checkout) =
     Inr [''src/presentation/controllers'', ''src/presentation/dtos'',
          ''src/presentation/mappers'', ''src/application/auth/use-cases'',
          ''src/application/auth/commands'', ''src/application/auth/queries'',
          ''src/application/auth/dtos'', ''src/application/users'',
          ''src/application/shared/interfaces'', ''src/application/shared/events'',
          ''src/domain/auth/entities'', ''src/domain/auth/value-objects'',
          ''src/domain/auth/services'', ''src/domain/auth/events'',
          ''src/domain/auth/repositories'', ''src/domain/users'', ''src/domain/roles'',
          ''src/domain/permissions'', ''src/domain/tenants'', ''src/domain/shared/events'',
          ''src/domain/shared/value-objects'',
          ''src/infrastructure/persistence/typeorm/repositories'',
          ''src/infrastructure/persistence/typeorm/entities'',
          ''src/infrastructure/persistence/mappers'',
          ''src/infrastructure/events/handlers'', ''src/infrastructure/external'']"
    by (simp add: DIRS_def)
  ultimately show ?thesis by simp
qed

text \<open>
  C4 (idempotence). A second run on the filesystem the first run left has the outcome
  of the first run: the same result, the same final filesystem and the same output.
  When the first run returned, the second returns too, leaves the filesystem as it
  found it and prints the same count, the number of manifest entries, whatever the
  system would refuse the second time.
\<close>

theorem idempotent:
  "create_dirs script deny (fs_after (create_dirs script deny fs)) = create_dirs script deny fs \<and>
   (result (create_dirs script deny fs) = Inr created \<longrightarrow>
      result (create_dirs script deny' (fs_after (create_dirs script deny fs))) = Inr created \<and>
      fs_after (create_dirs script deny' (fs_after (create_dirs script deny fs)))
        = fs_after (create_dirs script deny fs) \<and>
      stdout (create_dirs script deny' (fs_after (create_dirs script deny fs)))
        = [summary_line (length DIRS)] \<and>
      stdout (create_dirs script deny fs) = [summary_line (length DIRS)])"
proof (intro conjI impI)
  obtain r fs' where l: "create_loop deny (BASE_DIR script) DIRS [] fs = (r, fs')"
    by (cases "create_loop deny (BASE_DIR script) DIRS [] fs")
  from create_loop_again [OF l] l
  show "create_dirs script deny (fs_after (create_dirs script deny fs)) = create_dirs script deny fs"
    by (simp add: create_dirs_fs_after) (simp add: create_dirs_def)
next
  assume ok: "result (create_dirs script deny fs) = Inr created"
  let ?fs' = "fs_after (create_dirs script deny fs)"
  note run = create_dirs_Inr [OF ok]
  from create_loop_Inr [OF run]
  have c: "created = map (recorded (BASE_DIR script)) DIRS"
    and t: "\<forall>d\<in>set DIRS. prefix (parent (BASE_DIR script)) (joinpath (BASE_DIR script) d) \<and>
            ?fs' (joinpath (BASE_DIR script) d) = Some Dir"
    by simp_all
  from create_loop_present [OF t, of deny' "[]"] c
  have again: "create_loop deny' (BASE_DIR script) DIRS [] ?fs' = (Inr created, ?fs')" by simp
  from again show "result (create_dirs script deny' ?fs') = Inr created"
    by (simp add: create_dirs_result)
  from again show "fs_after (create_dirs script deny' ?fs') = ?fs'"
    by (simp add: create_dirs_fs_after)
  from c have n: "length created = length DIRS" by simp
  from again n show "stdout (create_dirs script deny' ?fs') = [summary_line (length DIRS)]"
    by (simp add: create_dirs_stdout create_dirs_result)
  from ok n show "stdout (create_dirs script deny fs) = [summary_line (length DIRS)]"
    by (simp add: create_dirs_stdout)
qed

theorem idempotent_witness:
  "result (create_dirs example_script deny_none fresh_checkout) = Inr (map ((@) ''src/'') DIRS) \<and>
   result (create_dirs example_script deny_none
     (fs_after (create_dirs example_script deny_none fresh_checkout)))
     = Inr (map ((@) ''src/'') DIRS) \<and>
   fs_after (create_dirs example_script deny_none
     (fs_after (create_dirs example_script deny_none fresh_checkout)))
     = fs_after (create_dirs example_script deny_none fresh_checkout) \<and>
   stdout (create_dirs example_script deny_none
     (fs_after (create_dirs example_script deny_none fresh_checkout)))
     = [summary_line 26]"
  using idempotent [of example_script deny_none fresh_checkout "map ((@) ''src/'') DIRS" deny_none]
    fresh_run
  by (simp add: length_DIRS)

text \<open>
  C5 (propagation). When \<open>mkdir\<close> raises on the manifest entry \<open>k\<close>, after the entries
  before it were processed, the run raises that error: it ends with the filesystem as
  the failed call left it, prints nothing and returns no list. The directories of the
  earlier entries are still there, and so is everything that existed before.
\<close>

theorem failure_propagates:
  assumes "k < length DIRS"
    and "create_loop deny (BASE_DIR script) (take k DIRS) [] fs = (Inr c, fs1)"
    and "mkdir deny True True (joinpath (BASE_DIR script) (DIRS ! k)) fs1 = (Inl e, fs2)"
  shows "result (create_dirs script deny fs) = Inl e \<and>
         fs_after (create_dirs script deny fs) = fs2 \<and>
         stdout (create_dirs script deny fs) = [] \<and>
         (\<forall>j<k. fs2 (joinpath (BASE_DIR script) (DIRS ! j)) = Some Dir) \<and>
         (\<forall>q. fs1 q \<noteq> None \<longrightarrow> fs2 q = fs1 q) \<and>
         (\<forall>q. fs q \<noteq> None \<longrightarrow> fs2 q = fs q)"
proof -
  let ?B = "BASE_DIR script"
  have decomp: "DIRS = take k DIRS @ DIRS ! k # drop (Suc k) DIRS"
    using assms(1) by (rule id_take_nth_drop)
  have run: "create_loop deny ?B DIRS [] fs = (Inl e, fs2)"
    by (subst decomp) (simp add: create_loop_append assms(2) create_loop_Cons [OF assms(3)])
  then have r: "result (create_dirs script deny fs) = Inl e"
    and f: "fs_after (create_dirs script deny fs) = fs2"
    by (simp_all add: create_dirs_result create_dirs_fs_after)
  from r have s: "stdout (create_dirs script deny fs) = []"
    by (simp add: create_dirs_stdout)
  from mkdir_mkdir_post [OF assms(3)]
  have k2: "\<forall>q. fs1 q \<noteq> None \<longrightarrow> fs2 q = fs1 q" by (simp add: mkdir_post_def)
  have k1: "\<forall>q. fs q \<noteq> None \<longrightarrow> fs1 q = fs q"
    using create_loop_keeps [OF assms(2)] by blast
  have e: "\<forall>j<k. fs2 (joinpath ?B (DIRS ! j)) = Some Dir"
  proof (intro allI impI)
    fix j assume jk: "j < k"
    with assms(1) have "j < length (take k DIRS)" by simp
    then have "take k DIRS ! j \<in> set (take k DIRS)" by (rule nth_mem)
    with jk have "DIRS ! j \<in> set (take k DIRS)" by simp
    with create_loop_Inr [OF assms(2)] have d: "fs1 (joinpath ?B (DIRS ! j)) = Some Dir"
      by blast
    from k2 have "fs1 (joinpath ?B (DIRS ! j)) \<noteq> None \<longrightarrow>
        fs2 (joinpath ?B (DIRS ! j)) = fs1 (joinpath ?B (DIRS ! j))" by (rule spec)
    with d show "fs2 (joinpath ?B (DIRS ! j)) = Some Dir" by simp
  qed
  have k12: "\<forall>q. fs q \<noteq> None \<longrightarrow> fs2 q = fs q"
  proof (intro allI impI)
    fix q assume q: "fs q \<noteq> None"
    with k1 have a: "fs1 q = fs q" by blast
    with q have "fs1 q \<noteq> None" by simp
    with k2 have "fs2 q = fs1 q" by blast
    with a show "fs2 q = fs q" by simp
  qed
  from r f s e k2 k12 show ?thesis by blast
qed

theorem failure_propagates_witness:
  "result (create_dirs example_script deny_none domain_is_file) = Inl NotADirectoryError \<and>
   stdout (create_dirs example_script deny_none domain_is_file) = [] \<and>
   fs_after (create_dirs example_script deny_none domain_is_file)
     [''app'', ''src'', ''application'', ''shared'', ''events''] = Some Dir \<and>
   fs_after (create_dirs example_script deny_none domain_is_file)
     [''app'', ''src'', ''domain''] = Some (File [])"
proof -
  let ?B = "BASE_DIR example_script"
  let ?l = "create_loop deny_none ?B (take 10 DIRS) [] domain_is_file"
  let ?m = "mkdir deny_none True True (joinpath ?B (DIRS ! 10)) (snd ?l)"
  have k: "10 < length DIRS" by (simp add: length_DIRS)
  have "fst ?l = Inr (map ((@) ''src/'') (take 10 DIRS))" by code_simp
  then have l: "?l = (Inr (map ((@) ''src/'') (take 10 DIRS)), snd ?l)"
    by (simp add: prod_eq_iff)
  have "fst ?m = Inl NotADirectoryError" by code_simp
  then have m: "?m = (Inl NotADirectoryError, snd ?m)" by (simp add: prod_eq_iff)
  have j: "joinpath ?B (DIRS ! 9) = [''app'', ''src'', ''application'', ''shared'', ''events'']"
    by code_simp
  have d: "domain_is_file [''app'', ''src'', ''domain''] = Some (File [])"
    by (simp add: domain_is_file_def)
  note fp = failure_propagates [OF k l m]
  from fp have r: "result (create_dirs example_script deny_none domain_is_file)
      = Inl NotADirectoryError"
    and s: "stdout (create_dirs example_script deny_none domain_is_file) = []"
    and f: "fs_after (create_dirs example_script deny_none domain_is_file) = snd ?m"
    by simp_all
  from fp have "\<forall>j<10. snd ?m (joinpath ?B (DIRS ! j)) = Some Dir" by simp
  then have "snd ?m (joinpath ?B (DIRS ! 9)) = Some Dir" by simp
  then have a: "snd ?m [''app'', ''src'', ''application'', ''shared'', ''events''] = Some Dir"
    by (simp only: j)
  from fp have "\<forall>q. domain_is_file q \<noteq> None \<longrightarrow> snd ?m q = domain_is_file q" by simp
  with d have b: "snd ?m [''app'', ''src'', ''domain''] = Some (File [])" by simp
  from r s a b show ?thesis by (simp only: f)
qed

text \<open>
  C6 (a file in the way). When \<open>presentation\<close> under the base directory is a plain file,
  the run raises \<open>NotADirectoryError\<close> on the first manifest entry, changes nothing and
  prints nothing.
\<close>

theorem file_in_the_way:
  assumes "wf_fs fs" and "fs (BASE_DIR script @ [''presentation'']) = Some (File c)"
  shows "result (create_dirs script deny fs) = Inl NotADirectoryError \<and>
         fs_after (create_dirs script deny fs) = fs \<and>
         stdout (create_dirs script deny fs) = []"
proof -
  let ?B = "BASE_DIR script"
  let ?p = "?B @ [''presentation'']"
  obtain rest where D: "DIRS = ''presentation/controllers'' # rest"
    by (simp add: DIRS_def)
  have j: "joinpath ?B ''presentation/controllers'' = ?p @ [''controllers'']"
    by (simp add: joinpath_def is_absolute_def parts_def)
  have n: "fs (?p @ [''controllers'']) = None"
  proof (rule ccontr)
    assume "fs (?p @ [''controllers'']) \<noteq> None"
    with assms(1) have "fs (parent (?p @ [''controllers''])) = Some Dir"
      unfolding wf_fs_def by blast
    with assms(2) show False by (simp only: parent_snoc) simp
  qed
  from n assms(2) have "mkdir deny True True (?p @ [''controllers'']) fs = (Inl NotADirectoryError, fs)"
    using mkdir_snoc [of deny ?p "''controllers''" fs] by simp
  then have "mkdir deny True True (joinpath ?B ''presentation/controllers'') fs
      = (Inl NotADirectoryError, fs)"
    by (simp only: j)
  from create_loop_Cons [OF this, of rest "[]"] D
  have run: "create_loop deny ?B DIRS [] fs = (Inl NotADirectoryError, fs)" by simp
  then show ?thesis
    by (simp add: create_dirs_result create_dirs_fs_after create_dirs_stdout)
qed

theorem file_in_the_way_witness:
  "wf_fs presentation_is_file \<and>
   presentation_is_file (BASE_DIR example_script @ [''presentation'']) = Some (File []) \<and>
   result (create_dirs example_script deny_none presentation_is_file) = Inl NotADirectoryError \<and>
   fs_after (create_dirs example_script deny_none presentation_is_file) = presentation_is_file \<and>
   stdout (create_dirs example_script deny_none presentation_is_file) = []"
proof -
  have p: "presentation_is_file (BASE_DIR example_script @ [''presentation'']) = Some (File [])"
    by (simp add: presentation_is_file_def BASE_DIR_src example_script_def parent_def)
  from file_in_the_way [OF wf_presentation_is_file p] wf_presentation_is_file p
  show ?thesis by simp
qed

text \<open>
  C7 (order). On a tree-shaped filesystem the loop over any permutation of the manifest
  returns exactly when the run over the manifest returns, and then both leave the same
  filesystem.
\<close>

theorem order_independent:
  assumes "wf_fs fs" and "mset ds = mset DIRS"
  shows "((\<exists>c. fst (create_loop deny (BASE_DIR script) ds [] fs) = Inr c) \<longleftrightarrow>
          (\<exists>c. result (create_dirs script deny fs) = Inr c)) \<and>
         ((\<exists>c. result (create_dirs script deny fs) = Inr c) \<longrightarrow>
          snd (create_loop deny (BASE_DIR script) ds [] fs) = fs_after (create_dirs script deny fs))"
proof -
  let ?B = "BASE_DIR script"
  from assms(2) have s: "set ds = set DIRS" by (rule mset_eq_setD)
  have ok: "(\<exists>c. fst (create_loop deny ?B xs [] fs) = Inr c) \<longleftrightarrow>
      (\<forall>d\<in>set xs. creatable deny fs (joinpath ?B d) \<and> prefix (parent ?B) (joinpath ?B d))" for xs
  proof -
    have "(\<exists>c. fst (create_loop deny ?B xs [] fs) = Inr c) \<longleftrightarrow>
        (\<exists>c fs'. create_loop deny ?B xs [] fs = (Inr c, fs'))"
      by (cases "create_loop deny ?B xs [] fs") simp
    with create_loop_succeeds_iff [OF assms(1), of deny ?B xs "[]"] show ?thesis by simp
  qed
  have cf: "snd (create_loop deny ?B xs [] fs)
      = with_dirs fs (\<lambda>q. \<exists>d\<in>set xs. prefix q (joinpath ?B d))"
    if h: "fst (create_loop deny ?B xs [] fs) = Inr c" for xs c
  proof -
    from h have "create_loop deny ?B xs [] fs = (Inr c, snd (create_loop deny ?B xs [] fs))"
      by (simp add: prod_eq_iff)
    from create_loop_closed_form [OF assms(1) this] show ?thesis .
  qed
  from ok [of ds] ok [of DIRS] s
  have e: "(\<exists>c. fst (create_loop deny ?B ds [] fs) = Inr c) \<longleftrightarrow>
      (\<exists>c. result (create_dirs script deny fs) = Inr c)"
    by (simp add: create_dirs_result)
  have "snd (create_loop deny ?B ds [] fs) = fs_after (create_dirs script deny fs)"
    if "result (create_dirs script deny fs) = Inr c" for c
  proof -
    from that e obtain c' where "fst (create_loop deny ?B ds [] fs) = Inr c'" by blast
    from that have "fst (create_loop deny ?B DIRS [] fs) = Inr c"
      by (simp add: create_dirs_result)
    from cf [OF \<open>fst (create_loop deny ?B ds [] fs) = Inr c'\<close>] cf [OF this] s show ?thesis
      by (simp add: create_dirs_fs_after)
  qed
  with e show ?thesis by blast
qed

theorem order_independent_witness:
  "wf_fs fresh_checkout \<and> mset (rev DIRS) = mset DIRS \<and>
   fst (create_loop deny_none (BASE_DIR example_script) (rev DIRS) [] fresh_checkout)
     = Inr (map ((@) ''src/'') (rev DIRS)) \<and>
   snd (create_loop deny_none (BASE_DIR example_script) (rev DIRS) [] fresh_checkout)
     = fs_after (create_dirs example_script deny_none fresh_checkout)"
proof -
  have r: "fst (create_loop deny_none (BASE_DIR example_script) (rev DIRS) [] fresh_checkout)
     = Inr (map ((@) ''src/'') (rev DIRS))"
    by code_simp
  have m: "mset (rev DIRS) = mset DIRS" by simp
  from order_independent [OF wf_fresh_checkout m, of deny_none example_script] fresh_run
    wf_fresh_checkout r
  show ?thesis by simp
qed

text \<open>
  C8 (frame). Whether the run returns or raises, every entry that existed before it is
  unchanged, a file with its contents, and what the run added are directories.
\<close>

theorem nothing_modified:
  "(\<forall>q. fs q \<noteq> None \<longrightarrow> fs_after (create_dirs script deny fs) q = fs q) \<and>
   (\<forall>q. fs q = None \<longrightarrow>
      fs_after (create_dirs script deny fs) q = None \<or>
      fs_after (create_dirs script deny fs) q = Some Dir)"
proof -
  obtain r fs' where l: "create_loop deny (BASE_DIR script) DIRS [] fs = (r, fs')"
    by (cases "create_loop deny (BASE_DIR script) DIRS [] fs")
  then have f: "fs_after (create_dirs script deny fs) = fs'"
    by (simp add: create_dirs_fs_after)
  from create_loop_keeps [OF l] create_loop_adds [OF l] show ?thesis
    unfolding f by blast
qed

theorem nothing_modified_witness:
  "fs_after (create_dirs example_script deny_none fresh_checkout) example_script
     = Some (File ''#!/usr/bin/env python3'') \<and>
   fs_after (create_dirs example_script deny_none domain_is_file) [''app'', ''src'', ''domain'']
     = Some (File [])"
proof -
  have a: "fresh_checkout example_script = Some (File ''#!/usr/bin/env python3'')"
    by (simp add: fresh_checkout_def example_script_def)
  have b: "domain_is_file [''app'', ''src'', ''domain''] = Some (File [])"
    by (simp add: domain_is_file_def)
  from nothing_modified [of fresh_checkout example_script deny_none]
    nothing_modified [of domain_is_file example_script deny_none] a b
  show ?thesis by simp
qed

text \<open>
  C9 (where the run writes), as amended. The base directory is the parent of the
  script's directory followed by \<open>src\<close>, and the manifest is the list of the
  specification, with its 26 entries in that order. A run that returns leaves a
  directory at the base directory joined with each manifest entry. Every path a run
  changes is such a directory or a missing ancestor of one, and the run makes it a
  directory; when the filesystem is a tree that holds the parent of the script's
  directory, every such path is the base directory or lies below it.
\<close>

theorem base_dir_and_manifest:
  "BASE_DIR script = parent (parent script) @ [''src''] \<and>
   DIRS = spec_manifest \<and> length DIRS = 26 \<and>
   (\<forall>e\<in>set DIRS. joinpath (BASE_DIR script) e = parent (parent script) @ ''src'' # parts e) \<and>
   (result (create_dirs script deny fs) = Inr created \<longrightarrow>
      (\<forall>e\<in>set DIRS. fs_after (create_dirs script deny fs) (joinpath (BASE_DIR script) e)
         = Some Dir)) \<and>
   (\<forall>q. fs_after (create_dirs script deny fs) q \<noteq> fs q \<longrightarrow>
      fs q = None \<and> fs_after (create_dirs script deny fs) q = Some Dir \<and>
      (\<exists>e\<in>set DIRS. prefix q (joinpath (BASE_DIR script) e))) \<and>
   (wf_fs fs \<and> fs (parent (parent script)) \<noteq> None \<longrightarrow>
      (\<forall>q. fs_after (create_dirs script deny fs) q \<noteq> fs q \<longrightarrow> prefix (BASE_DIR script) q))"
proof (intro conjI ballI allI impI)
  show "BASE_DIR script = parent (parent script) @ [''src'']" by (rule BASE_DIR_src)
  show "DIRS = spec_manifest" by (simp add: DIRS_def spec_manifest_def)
  show "length DIRS = 26" by (rule length_DIRS)
next
  fix e assume "e \<in> set DIRS"
  then show "joinpath (BASE_DIR script) e = parent (parent script) @ ''src'' # parts e"
    by (simp add: joinpath_relative DIRS_relative BASE_DIR_src)
next
  fix e assume ok: "result (create_dirs script deny fs) = Inr created" and e: "e \<in> set DIRS"
  from create_loop_Inr [OF create_dirs_Inr [OF ok]] e
  show "fs_after (create_dirs script deny fs) (joinpath (BASE_DIR script) e) = Some Dir"
    by simp
next
  fix q assume c: "fs_after (create_dirs script deny fs) q \<noteq> fs q"
  note w = created_on_the_way [OF c]
  from w show "fs q = None" by simp
  from w show "fs_after (create_dirs script deny fs) q = Some Dir" by simp
  from w show "\<exists>e\<in>set DIRS. prefix q (joinpath (BASE_DIR script) e)" by simp
next
  fix q assume h: "wf_fs fs \<and> fs (parent (parent script)) \<noteq> None"
    and c: "fs_after (create_dirs script deny fs) q \<noteq> fs q"
  from h have "wf_fs fs" and "fs (parent (parent script)) \<noteq> None" by blast+
  then show "prefix (BASE_DIR script) q" using c by (rule created_below_base)
qed

theorem base_dir_and_manifest_witness:
  "BASE_DIR example_script = [''app'', ''src''] \<and>
   result (create_dirs example_script deny_none fresh_checkout) = Inr (map ((@) ''src/'') DIRS) \<and>
   fresh_checkout [''app'', ''src'', ''domain'', ''users''] = None \<and>
   fs_after (create_dirs example_script deny_none fresh_checkout)
     [''app'', ''src'', ''domain'', ''users''] = Some Dir \<and>
   fresh_checkout [''app'', ''src'', ''domain''] = None \<and>
   fs_after (create_dirs example_script deny_none fresh_checkout) [''app'', ''src'', ''domain'']
     = Some Dir \<and>
   prefix (BASE_DIR example_script) [''app'', ''src'', ''domain'']"
proof -
  note t = base_dir_and_manifest [of example_script deny_none fresh_checkout
      "map ((@) ''src/'') DIRS"]
  have b: "BASE_DIR example_script = [''app'', ''src'']" by code_simp
  have e: "''domain/users'' \<in> set DIRS" by (simp add: DIRS_def)
  have j: "joinpath (BASE_DIR example_script) ''domain/users''
      = [''app'', ''src'', ''domain'', ''users'']"
    by code_simp
  from t fresh_run e
  have "fs_after (create_dirs example_script deny_none fresh_checkout)
      (joinpath (BASE_DIR example_script) ''domain/users'') = Some Dir"
    by blast
  then have u: "fs_after (create_dirs example_script deny_none fresh_checkout)
      [''app'', ''src'', ''domain'', ''users''] = Some Dir"
    by (simp only: j)
  have nu: "fresh_checkout [''app'', ''src'', ''domain'', ''users''] = None"
    by (simp add: fresh_checkout_def)
  have n: "fresh_checkout [''app'', ''src'', ''domain''] = None"
    by (simp add: fresh_checkout_def)
  have d: "fs_after (create_dirs example_script deny_none fresh_checkout)
      [''app'', ''src'', ''domain''] = Some Dir"
    by code_simp
  have p: "fresh_checkout (parent (parent example_script)) \<noteq> None"
    by (simp add: fresh_checkout_def example_script_def parent_def)
  from t wf_fresh_checkout p
  have "\<forall>q. fs_after (create_dirs example_script deny_none fresh_checkout) q \<noteq> fresh_checkout q
      \<longrightarrow> prefix (BASE_DIR example_script) q"
    by blast
  with n d have "prefix (BASE_DIR example_script) [''app'', ''src'', ''domain'']"
    by (metis option.distinct(1))
  with b fresh_run nu u n d show ?thesis by simp
qed

text \<open>
  The counterexample to C9 as stated: in a checkout without \<open>src\<close> the run creates
  \<open>src/presentation\<close>, which is neither the directory of a manifest entry nor below one.
\<close>

theorem intermediate_directory_written:
  "fresh_checkout [''app'', ''src'', ''presentation''] = None \<and>
   fs_after (create_dirs example_script deny_none fresh_checkout)
     [''app'', ''src'', ''presentation''] = Some Dir \<and>
   \<not> under_entry (BASE_DIR example_script) [''app'', ''src'', ''presentation'']"
proof -
  have "fresh_checkout [''app'', ''src'', ''presentation''] = None"
    by (simp add: fresh_checkout_def)
  moreover have "fs_after (create_dirs example_script deny_none fresh_checkout)
      [''app'', ''src'', ''presentation''] = Some Dir"
    by code_simp
  moreover have "\<not> under_entry (BASE_DIR example_script) [''app'', ''src'', ''presentation'']"
    by code_simp
  ultimately show ?thesis by simp
qed

text \<open>
  C10 (the manifest stays inside the base directory), as amended. Every manifest entry
  is a non-empty relative path whose components are non-empty and are neither \<open>.\<close> nor
  \<open>..\<close>, and the entries are pairwise distinct; so every entry's directory lies strictly
  inside the base directory, these directories are pairwise distinct, and so are the
  names a run returns. On a tree-shaped filesystem that holds the parent of the script's
  directory, every directory a run creates is the base directory or lies inside it; when
  the base directory exists before the run, every directory created lies strictly inside.
\<close>

theorem manifest_inside_base:
  "(\<forall>e\<in>set DIRS. e \<noteq> [] \<and> \<not> is_absolute e \<and>
       (\<forall>c\<in>set (split_on (CHR ''/'') e). c \<noteq> [] \<and> c \<noteq> ''.'' \<and> c \<noteq> ''..'') \<and>
       strict_prefix (BASE_DIR script) (joinpath (BASE_DIR script) e)) \<and>
   distinct DIRS \<and> distinct (map (joinpath (BASE_DIR script)) DIRS) \<and>
   (result (create_dirs script deny fs) = Inr created \<longrightarrow> distinct created) \<and>
   (wf_fs fs \<and> fs (parent (parent script)) \<noteq> None \<longrightarrow>
      (\<forall>q. fs q = None \<and> fs_after (create_dirs script deny fs) q \<noteq> None \<longrightarrow>
         prefix (BASE_DIR script) q)) \<and>
   (wf_fs fs \<and> fs (BASE_DIR script) \<noteq> None \<longrightarrow>
      (\<forall>q. fs q = None \<and> fs_after (create_dirs script deny fs) q \<noteq> None \<longrightarrow>
         strict_prefix (BASE_DIR script) q))"
proof (intro conjI ballI allI impI)
  fix e assume e: "e \<in> set DIRS"
  with DIRS_entries
  have p: "e \<noteq> [] \<and> \<not> is_absolute e \<and> parts e \<noteq> [] \<and>
      list_all (\<lambda>c. c \<noteq> [] \<and> c \<noteq> ''.'' \<and> c \<noteq> ''..'') (split_on (CHR ''/'') e)"
    unfolding list_all_iff by blast
  from p show "e \<noteq> []" by simp
  from p show "\<not> is_absolute e" by simp
  from p show "strict_prefix (BASE_DIR script) (joinpath (BASE_DIR script) e)"
    by (simp add: joinpath_relative strict_prefix_def)
  fix c assume "c \<in> set (split_on (CHR ''/'') e)"
  with p have c: "c \<noteq> [] \<and> c \<noteq> ''.'' \<and> c \<noteq> ''..''"
    unfolding list_all_iff by blast
  from c show "c \<noteq> []" by simp
  from c show "c \<noteq> ''.''" by simp
  from c show "c \<noteq> ''..''" by simp
next
  show "distinct DIRS" by (rule distinct_DIRS)
  show "distinct (map (joinpath (BASE_DIR script)) DIRS)"
    unfolding map_joinpath_DIRS using distinct_parts_DIRS
    by (simp add: distinct_map inj_on_def)
next
  assume "result (create_dirs script deny fs) = Inr created"
  from create_loop_Inr [OF create_dirs_Inr [OF this]]
  have "created = map (recorded (BASE_DIR script)) DIRS" by simp
  also have "\<dots> = map ((@) ''src/'') DIRS"
    by (rule map_cong) (simp_all add: DIRS_recorded)
  finally show "distinct created"
    using distinct_DIRS by (simp add: distinct_map inj_on_def)
next
  fix q assume h: "wf_fs fs \<and> fs (parent (parent script)) \<noteq> None"
    and c: "fs q = None \<and> fs_after (create_dirs script deny fs) q \<noteq> None"
  from h have w: "wf_fs fs" and pp: "fs (parent (parent script)) \<noteq> None" by blast+
  from c have "fs_after (create_dirs script deny fs) q \<noteq> fs q" by auto
  with w pp show "prefix (BASE_DIR script) q" by (rule created_below_base)
next
  fix q assume h: "wf_fs fs \<and> fs (BASE_DIR script) \<noteq> None"
    and c: "fs q = None \<and> fs_after (create_dirs script deny fs) q \<noteq> None"
  from h have w: "wf_fs fs" and b: "fs (BASE_DIR script) \<noteq> None" by blast+
  from w b have "fs (parent (BASE_DIR script)) = Some Dir" by (simp add: wf_fs_def)
  then have pp: "fs (parent (parent script)) \<noteq> None" by (simp add: parent_BASE_DIR)
  from c have "fs_after (create_dirs script deny fs) q \<noteq> fs q" by auto
  with w pp have "prefix (BASE_DIR script) q" by (rule created_below_base)
  moreover from b c have "q \<noteq> BASE_DIR script" by auto
  ultimately show "strict_prefix (BASE_DIR script) q" by (simp add: strict_prefix_def)
qed

theorem manifest_inside_base_witness:
  "strict_prefix (BASE_DIR example_script) (joinpath (BASE_DIR example_script) ''domain/users'') \<and>
   joinpath (BASE_DIR example_script) ''domain/users'' = [''app'', ''src'', ''domain'', ''users''] \<and>
   distinct (map ((@) ''src/'') DIRS) \<and>
   prefix (BASE_DIR example_script) [''app'', ''src'']"
proof -
  have e: "''domain/users'' \<in> set DIRS" by (simp add: DIRS_def)
  have j: "joinpath (BASE_DIR example_script) ''domain/users'' = [''app'', ''src'', ''domain'', ''users'']"
    by code_simp
  have n: "fresh_checkout [''app'', ''src''] = None" by (simp add: fresh_checkout_def)
  have d: "fs_after (create_dirs example_script deny_none fresh_checkout) [''app'', ''src''] = Some Dir"
    by code_simp
  have p: "fresh_checkout (parent (parent example_script)) \<noteq> None"
    by (simp add: fresh_checkout_def example_script_def parent_def)
  note m = manifest_inside_base [of example_script deny_none fresh_checkout
      "map ((@) ''src/'') DIRS"]
  from m e have a: "strict_prefix (BASE_DIR example_script)
      (joinpath (BASE_DIR example_script) ''domain/users'')" by blast
  from m fresh_run have b: "distinct (map ((@) ''src/'') DIRS)" by blast
  from m wf_fresh_checkout p
  have "\<forall>q. fresh_checkout q = None \<and>
      fs_after (create_dirs example_script deny_none fresh_checkout) q \<noteq> None \<longrightarrow>
      prefix (BASE_DIR example_script) q" by blast
  with n d have c: "prefix (BASE_DIR example_script) [''app'', ''src'']"
    by (metis option.distinct(1))
  from a b c j show ?thesis by simp
qed

text \<open>
  The counterexample to C10 as stated: in a checkout without \<open>src\<close> the run creates
  the base directory itself, which does not lie strictly inside the base directory.
\<close>

theorem base_dir_itself_created:
  "fresh_checkout (BASE_DIR example_script) = None \<and>
   fs_after (create_dirs example_script deny_none fresh_checkout) (BASE_DIR example_script)
     = Some Dir \<and>
   \<not> strict_prefix (BASE_DIR example_script) (BASE_DIR example_script)"
proof -
  have "fresh_checkout (BASE_DIR example_script) = None" by code_simp
  moreover have "fs_after (create_dirs example_script deny_none fresh_checkout)
      (BASE_DIR example_script) = Some Dir"
    by code_simp
  ultimately show ?thesis by simp
qed

end
